theory Spec2Isabelle
  imports Main "HOL-Library.Log_Nat"
begin

section \<open>Strings and errors\<close>

text \<open>
  JavaScript strings are modelled as HOL strings. A HOL character is one of 256 code
  points, so the model covers the strings whose code units lie below 256 (ASCII and
  Latin-1); every address and amount the node handles is ASCII.

  \<open>String.prototype.toLowerCase\<close> maps \<open>A\<close>..\<open>Z\<close> (65..90) and the Latin-1 capitals
  (192..222 without the multiplication sign 215) to the code point 32 higher, which is
  the same character with bit 5 set, and leaves every other code point below 256 alone.
\<close>

definition isUpperCaseChar :: "char \<Rightarrow> bool" where
  "isUpperCaseChar c =
     (let n = (of_char c :: nat)
      in (65 \<le> n \<and> n \<le> 90) \<or> (192 \<le> n \<and> n \<le> 222 \<and> n \<noteq> 215))"

definition toLowerCaseChar :: "char \<Rightarrow> char" where
  "toLowerCaseChar c =
     (if isUpperCaseChar c
      then (case c of Char b0 b1 b2 b3 b4 b5 b6 b7 \<Rightarrow> Char b0 b1 b2 b3 b4 True b6 b7)
      else c)"

definition toLowerCase :: "string \<Rightarrow> string" where
  "toLowerCase s = map toLowerCaseChar s"

definition startsWith :: "string \<Rightarrow> string \<Rightarrow> bool" where
  \<comment> \<open>\<open>s.startsWith(p)\<close>, written \<open>startsWith p s\<close>\<close>
  "startsWith p s = (take (length p) s = p)"

text \<open>
  What the code throws: a plain \<open>Error\<close> with its message, the \<open>RangeError\<close> of
  \<open>BigInt(x)\<close> on a number that is not an integer, and the two faults of the ethers
  library (\<open>INVALID_ARGUMENT\<close>, \<open>NUMERIC_FAULT\<close>) with their messages.
\<close>

datatype error =
    Error string
  | RangeError
  | InvalidArgument string
  | NumericFault string

section \<open>Address utilities (utils/addressUtils.ts)\<close>

definition toXdcAddress :: "string \<Rightarrow> error + string" where
  "toXdcAddress address =
     (if address = [] then Inl (Error ''Address is required'')
      else let normalized = toLowerCase address
           in if startsWith ''xdc'' normalized then Inr normalized
              else if startsWith ''0x'' normalized then Inr (''xdc'' @ drop 2 normalized)
              else if length normalized = 40 then Inr (''xdc'' @ normalized)
              else Inl (Error (''Invalid address format: '' @ address)))"

definition toEthAddress :: "string \<Rightarrow> error + string" where
  "toEthAddress address =
     (if address = [] then Inl (Error ''Address is required'')
      else let normalized = toLowerCase address
           in if startsWith ''0x'' normalized then Inr normalized
              else if startsWith ''xdc'' normalized then Inr (''0x'' @ drop 3 normalized)
              else if length normalized = 40 then Inr (''0x'' @ normalized)
              else Inl (Error (''Invalid address format: '' @ address)))"

definition normalizeAddress :: "string \<Rightarrow> bool \<Rightarrow> error + string" where
  \<comment> \<open>the flag is \<open>format === 'xdc'\<close>\<close>
  "normalizeAddress address xdcFormat =
     (if xdcFormat then toXdcAddress address else toEthAddress address)"

definition addressesEqual :: "string \<Rightarrow> string \<Rightarrow> bool" where
  \<comment> \<open>the \<open>try\<close>/\<open>catch\<close> turns either throw into \<open>false\<close>\<close>
  "addressesEqual address1 address2 =
     (if address1 = [] \<or> address2 = [] then False
      else case toEthAddress address1 of
             Inl _ \<Rightarrow> False
           | Inr e1 \<Rightarrow>
               (case toEthAddress address2 of
                  Inl _ \<Rightarrow> False
                | Inr e2 \<Rightarrow> toLowerCase e1 = toLowerCase e2))"

subsection \<open>The address forms the specification names\<close>

text \<open>
  A payload is 40 hexadecimal digits. Format A is the 3-character tag \<open>xdc\<close> and a payload,
  format B the 2-character tag \<open>0x\<close> and a payload; the tag and the digits may be in
  either case, since the code lowercases before it looks at the tag.
\<close>

definition isHexDigit :: "char \<Rightarrow> bool" where
  "isHexDigit c = (c \<in> set ''0123456789abcdefABCDEF'')"

definition isPayload :: "string \<Rightarrow> bool" where
  "isPayload p = (length p = 40 \<and> list_all isHexDigit p)"

definition isFormatA :: "string \<Rightarrow> bool" where
  "isFormatA s = (toLowerCase (take 3 s) = ''xdc'' \<and> isPayload (drop 3 s))"

definition isFormatB :: "string \<Rightarrow> bool" where
  "isFormatB s = (toLowerCase (take 2 s) = ''0x'' \<and> isPayload (drop 2 s))"

definition isKnownForm :: "string \<Rightarrow> bool" where
  "isKnownForm s = (isFormatA s \<or> isFormatB s \<or> isPayload s)"

definition payloadOf :: "string \<Rightarrow> string" where
  \<comment> \<open>the last 40 characters, lowercased\<close>
  "payloadOf s = toLowerCase (drop (length s - 40) s)"

section \<open>Decimal text of integers\<close>

text \<open>
  \<open>BigInt.prototype.toString()\<close>: the decimal digits, most significant first, with a
  leading \<open>-\<close> for a negative value.
\<close>

definition digitChar :: "nat \<Rightarrow> char" where
  "digitChar d = ''0123456789'' ! d"

function showNat :: "nat \<Rightarrow> string" where
  "showNat n = (if n < 10 then [digitChar n] else showNat (n div 10) @ [digitChar (n mod 10)])"
  by pat_completeness auto
termination
  by (relation "measure id") auto

definition bigintToString :: "int \<Rightarrow> string" where
  "bigintToString i = (if i < 0 then ''-'' @ showNat (nat (- i)) else showNat (nat i))"

definition isDigit :: "char \<Rightarrow> bool" where
  "isDigit c = (c \<in> set ''0123456789'')"

definition digitValue :: "char \<Rightarrow> nat" where
  "digitValue c = (of_char c :: nat) - 48"

definition readNat :: "string \<Rightarrow> nat" where
  \<comment> \<open>the value of a string of decimal digits; the empty string reads as 0\<close>
  "readNat ds = foldl (\<lambda>a c. 10 * a + digitValue c) 0 ds"

definition bigintDiv :: "int \<Rightarrow> int \<Rightarrow> int" where
  \<comment> \<open>\<open>a / b\<close> on BigInt truncates towards zero (the divisor is never 0 in this code)\<close>
  "bigintDiv a b = sgn a * sgn b * (\<bar>a\<bar> div \<bar>b\<bar>)"

section \<open>JavaScript numbers\<close>

text \<open>
  A JavaScript \<open>number\<close> is an IEEE 754 binary64 value: a finite value, which is a
  rational, or one of the infinities, or NaN. The two zeros are identified: in the code
  modelled here a zero divisor only comes from \<open>Number(0n)\<close>, which is \<open>+0\<close>, and the
  sign of a zero result shows in no output (\<open>BigInt(-0)\<close> is \<open>0n\<close>).

  Every arithmetic operation computes the exact result and rounds it to the nearest
  binary64 value, ties to the even significand: \<open>roundDouble\<close>. A value of magnitude
  between \<open>2^e\<close> and \<open>2^(e+1)\<close> is rounded to a multiple of \<open>2^(e-52)\<close> (53 significant
  bits), and to a multiple of \<open>2^-1074\<close> below \<open>2^-1022\<close> (the subnormal range); a result
  of magnitude \<open>2^1024\<close> or more is an infinity.
\<close>

datatype js_number = Fin rat | PosInf | NegInf | NaN

definition ilog2 :: "rat \<Rightarrow> int" where
  \<comment> \<open>for \<open>q > 0\<close>, the exponent \<open>e\<close> with \<open>2^e \<le> q < 2^(e+1)\<close>\<close>
  "ilog2 q =
     (case quotient_of q of (a, b) \<Rightarrow>
        let d = bitlen a - bitlen b in if 2 powi d \<le> q then d else d - 1)"

definition roundHalfEven :: "rat \<Rightarrow> int" where
  "roundHalfEven x =
     (let f = \<lfloor>x\<rfloor>; r = x - of_int f
      in if r < 1 / 2 then f else if 1 / 2 < r then f + 1 else if even f then f else f + 1)"

definition roundDouble :: "rat \<Rightarrow> js_number" where
  "roundDouble q =
     (if q = 0 then Fin 0
      else let a = \<bar>q\<bar>;
               p = max (ilog2 a - 52) (- 1074);
               m = roundHalfEven (a / 2 powi p);
               x = of_int m * 2 powi p
           in if 2 powi 1024 \<le> x then (if 0 < q then PosInf else NegInf)
              else Fin (if 0 < q then x else - x))"

text \<open>
  The unit roundoff of binary64: a result in the normal range differs from the exact
  value by at most this fraction of it.
\<close>

definition unitRoundoff :: rat where
  "unitRoundoff = 1 / 2 ^ 53"

definition Number :: "int \<Rightarrow> js_number" where
  \<comment> \<open>\<open>Number(b)\<close> for a BigInt \<open>b\<close>\<close>
  "Number b = roundDouble (of_int b)"

fun js_mul :: "js_number \<Rightarrow> js_number \<Rightarrow> js_number" where
  "js_mul NaN _ = NaN"
| "js_mul _ NaN = NaN"
| "js_mul (Fin x) (Fin y) = roundDouble (x * y)"
| "js_mul (Fin x) PosInf = (if x = 0 then NaN else if 0 < x then PosInf else NegInf)"
| "js_mul (Fin x) NegInf = (if x = 0 then NaN else if 0 < x then NegInf else PosInf)"
| "js_mul PosInf (Fin y) = (if y = 0 then NaN else if 0 < y then PosInf else NegInf)"
| "js_mul NegInf (Fin y) = (if y = 0 then NaN else if 0 < y then NegInf else PosInf)"
| "js_mul PosInf PosInf = PosInf"
| "js_mul PosInf NegInf = NegInf"
| "js_mul NegInf PosInf = NegInf"
| "js_mul NegInf NegInf = PosInf"

fun js_div :: "js_number \<Rightarrow> js_number \<Rightarrow> js_number" where
  "js_div NaN _ = NaN"
| "js_div _ NaN = NaN"
| "js_div (Fin x) (Fin y) =
     (if y = 0 then (if x = 0 then NaN else if 0 < x then PosInf else NegInf)
      else roundDouble (x / y))"
| "js_div (Fin x) PosInf = Fin 0"
| "js_div (Fin x) NegInf = Fin 0"
| "js_div PosInf (Fin y) = (if 0 \<le> y then PosInf else NegInf)"
| "js_div NegInf (Fin y) = (if 0 \<le> y then NegInf else PosInf)"
| "js_div PosInf PosInf = NaN"
| "js_div PosInf NegInf = NaN"
| "js_div NegInf PosInf = NaN"
| "js_div NegInf NegInf = NaN"

fun js_add :: "js_number \<Rightarrow> js_number \<Rightarrow> js_number" where
  "js_add NaN _ = NaN"
| "js_add _ NaN = NaN"
| "js_add (Fin x) (Fin y) = roundDouble (x + y)"
| "js_add (Fin x) PosInf = PosInf"
| "js_add (Fin x) NegInf = NegInf"
| "js_add PosInf (Fin y) = PosInf"
| "js_add NegInf (Fin y) = NegInf"
| "js_add PosInf PosInf = PosInf"
| "js_add PosInf NegInf = NaN"
| "js_add NegInf PosInf = NaN"
| "js_add NegInf NegInf = NegInf"

fun js_neg :: "js_number \<Rightarrow> js_number" where
  "js_neg (Fin x) = Fin (- x)"
| "js_neg PosInf = NegInf"
| "js_neg NegInf = PosInf"
| "js_neg NaN = NaN"

definition js_sub :: "js_number \<Rightarrow> js_number \<Rightarrow> js_number" where
  "js_sub a b = js_add a (js_neg b)"

fun Math_floor :: "js_number \<Rightarrow> js_number" where
  "Math_floor (Fin x) = Fin (of_int \<lfloor>x\<rfloor>)"
| "Math_floor n = n"

fun Math_min :: "js_number \<Rightarrow> js_number \<Rightarrow> js_number" where
  "Math_min NaN _ = NaN"
| "Math_min _ NaN = NaN"
| "Math_min NegInf _ = NegInf"
| "Math_min _ NegInf = NegInf"
| "Math_min PosInf b = b"
| "Math_min a PosInf = a"
| "Math_min (Fin x) (Fin y) = Fin (min x y)"

fun BigInt :: "js_number \<Rightarrow> error + int" where
  \<comment> \<open>\<open>BigInt(n)\<close> for a number: a RangeError unless \<open>n\<close> is an integer\<close>
  "BigInt (Fin x) = (if of_int \<lfloor>x\<rfloor> = x then Inr \<lfloor>x\<rfloor> else Inl RangeError)"
| "BigInt _ = Inl RangeError"

text \<open>
  \<open>n.toFixed(2)\<close>: below \<open>10^21\<close> in magnitude, the integer \<open>k\<close> nearest to \<open>100 n\<close> (the
  larger one on a tie) written with two decimals, after a \<open>-\<close> for a negative \<open>n\<close>. From
  \<open>10^21\<close> on, \<open>toFixed\<close> returns \<open>String(n)\<close>, the shortest exponent notation that reads
  back as \<open>n\<close>; that text is kept symbolic as \<open>NumberToString n\<close>.
\<close>

datatype number_text = Text string | NumberToString rat

definition pad2 :: "nat \<Rightarrow> string" where
  "pad2 k = [digitChar (k div 10), digitChar (k mod 10)]"

fun toFixed2 :: "js_number \<Rightarrow> number_text" where
  "toFixed2 NaN = Text ''NaN''"
| "toFixed2 PosInf = Text ''Infinity''"
| "toFixed2 NegInf = Text ''-Infinity''"
| "toFixed2 (Fin x) =
     (if 10 ^ 21 \<le> \<bar>x\<bar> then NumberToString x
      else let k = nat \<lfloor>\<bar>x\<bar> * 100 + 1 / 2\<rfloor>
           in Text ((if x < 0 then ''-'' else []) @ showNat (k div 100) @ ''.'' @ pad2 (k mod 100)))"

section \<open>The ethers unit functions the code calls\<close>

text \<open>
  \<open>ethers.parseUnits\<close> and \<open>ethers.formatUnits\<close> belong to the ethers library (version 6),
  which the repository imports; they are written out here from the library, because
  \<open>toWei\<close>, \<open>weiToXdc\<close> and the reward figures are what these functions return.

  \<open>parseUnits(value, decimals)\<close> reads \<open>value\<close> with
  \<open>FixedNumber.fromString(value, {decimals, width: 512})\<close>: the text must match
  \<open>/^(-?)([0-9]*)\.?([0-9]*)$/\<close> with at least one digit (else \<open>INVALID_ARGUMENT\<close>); the
  fraction is padded with zeros to \<open>decimals\<close> digits, and digits beyond that must all be
  zero (else \<open>NUMERIC_FAULT\<close>); the result is the signed integer of the digits, which must
  fit 512 signed bits (else \<open>NUMERIC_FAULT\<close>).
\<close>

definition parseUnits :: "string \<Rightarrow> nat \<Rightarrow> error + int" where
  "parseUnits value decimals =
     (let negative = startsWith ''-'' value;
          body = (if negative then tl value else value);
          whole = takeWhile isDigit body;
          rest = dropWhile isDigit body;
          decimal = (case rest of [] \<Rightarrow> [] | c # cs \<Rightarrow> if c = CHR ''.'' then cs else rest)
      in if \<not> (list_all isDigit decimal \<and> 0 < length whole + length decimal)
         then Inl (InvalidArgument ''invalid FixedNumber string value'')
         else let whole' = (if whole = [] then ''0'' else whole);
                  padded = decimal @ replicate (decimals - length decimal) CHR ''0''
              in if \<not> list_all (\<lambda>c. c = CHR ''0'') (drop decimals padded)
                 then Inl (NumericFault ''too many decimals for format'')
                 else let magnitude = int (readNat (whole' @ take decimals padded));
                          v = (if negative then - magnitude else magnitude)
                      in if v < - (2 ^ 511) \<or> 2 ^ 511 \<le> v
                         then Inl (NumericFault ''overflow'')
                         else Inr v)"

definition parseEther :: "string \<Rightarrow> error + int" where
  "parseEther ether = parseUnits ether 18"

text \<open>
  \<open>formatUnits(value, decimals)\<close> is \<open>FixedNumber.fromValue(value, decimals, {decimals,
  width: 512}).toString()\<close>: a \<open>NUMERIC_FAULT\<close> outside 512 signed bits; else the digits
  with a point \<open>decimals\<close> places from the right, zeros trimmed from both ends but one
  digit kept on each side of the point.
\<close>

fun trimZeros :: "string \<Rightarrow> string" where
  \<comment> \<open>\<open>while (str[0] === "0" && str[1] !== ".") str = str.substring(1)\<close>\<close>
  "trimZeros [] = []"
| "trimZeros (c # cs) =
     (if c = CHR ''0'' \<and> (case cs of [] \<Rightarrow> True | d # _ \<Rightarrow> d \<noteq> CHR ''.'')
      then trimZeros cs else c # cs)"

definition fixedToString :: "int \<Rightarrow> nat \<Rightarrow> string" where
  "fixedToString val decimals =
     (let negative = (if val < 0 then ''-'' else []);
          str = showNat (nat \<bar>val\<bar>)
      in if decimals = 0 then negative @ str
         else let padded = replicate (decimals + 1 - length str) CHR ''0'' @ str;
                  index = length padded - decimals;
                  pointed = take index padded @ ''.'' @ drop index padded;
                  trimmed = trimZeros pointed
              in negative @ rev (trimZeros (rev trimmed)))"

definition formatUnits :: "int \<Rightarrow> nat \<Rightarrow> error + string" where
  "formatUnits v decimals =
     (if v < - (2 ^ 511) \<or> 2 ^ 511 \<le> v then Inl (NumericFault ''overflow'')
      else Inr (fixedToString v decimals))"

definition formatEther :: "int \<Rightarrow> error + string" where
  "formatEther wei = formatUnits wei 18"

section \<open>Unit conversion (utils/unitConverter.ts)\<close>

definition UNIT_DECIMALS :: "(string \<times> nat) list" where
  "UNIT_DECIMALS =
     [(''wei'', 0), (''kwei'', 3), (''mwei'', 6), (''gwei'', 9), (''szabo'', 12),
      (''finney'', 15), (''xdc'', 18), (''ether'', 18)]"

definition unitDecimals :: "string \<Rightarrow> error + nat" where
  \<comment> \<open>\<open>UNIT_DECIMALS[unitLower] || 18\<close> as \<open>parseUnits\<close> receives it: a missing unit and the
      falsy 0 of \<open>wei\<close> both give 18; the two lowercase names every object inherits
      (\<open>constructor\<close>, \<open>__proto__\<close>) give an object, which \<open>parseUnits\<close> refuses\<close>
  "unitDecimals unitLower =
     (case map_of UNIT_DECIMALS unitLower of
        Some d \<Rightarrow> Inr (if d = 0 then 18 else d)
      | None \<Rightarrow>
          if unitLower = ''constructor'' \<or> unitLower = ''__proto__''
          then Inl (InvalidArgument ''invalid numeric value'')
          else Inr 18)"

definition toWei :: "string \<Rightarrow> string \<Rightarrow> error + int" where
  \<comment> \<open>\<open>value\<close> is the text \<open>value.toString()\<close>\<close>
  "toWei value unit =
     (let unitLower = toLowerCase unit;
          stringValue = value
      in if unitLower = ''xdc'' then parseEther stringValue
         else case unitDecimals unitLower of
                Inl e \<Rightarrow> Inl e
              | Inr d \<Rightarrow> parseUnits stringValue d)"

definition weiToXdc :: "int \<Rightarrow> error + string" where
  "weiToXdc weiValue = formatEther weiValue"

definition xdcToWei :: "string \<Rightarrow> error + int" where
  "xdcToWei xdcValue = parseEther xdcValue"

definition isNumericText :: "string \<Rightarrow> bool" where
  \<comment> \<open>an optional \<open>-\<close>, digits, an optional point, digits; at least one digit\<close>
  "isNumericText s =
     (let body = (if startsWith ''-'' s then tl s else s);
          whole = takeWhile isDigit body;
          rest = dropWhile isDigit body;
          decimal = (case rest of [] \<Rightarrow> [] | c # cs \<Rightarrow> if c = CHR ''.'' then cs else rest)
      in list_all isDigit decimal \<and> 0 < length whole + length decimal)"

section \<open>The masternode client (transport/explorerApi.ts, class XdcMasternodeClient)\<close>

text \<open>
  The validator contract is read through ethers; what its view functions return is a
  parameter of the model, and the reads are taken to succeed.
\<close>

record validatorContract =
  contractGetCandidates :: "string list"
  contractGetCandidateCap :: "string \<Rightarrow> int"
  contractGetCandidateOwner :: "string \<Rightarrow> string"
  contractIsCandidate :: "string \<Rightarrow> bool"
  contractGetVoters :: "string \<Rightarrow> string list"

datatype status = Active | Inactive | Proposed | Resigned

record MasternodeInfo =
  address :: string
  owner :: string
  stake :: string
  stakeXdc :: string
  voterCount :: nat
  isValidator :: bool
  status :: status

record EpochInfo =
  number :: js_number
  startBlock :: js_number
  endBlock :: js_number
  validatorSet :: "string list"
  rewards :: string
  rewardsXdc :: string

record estimatedRewards =
  daily :: string
  monthly :: string
  yearly :: string
  apy :: number_text

fun mapE :: "('a \<Rightarrow> error + 'b) \<Rightarrow> 'a list \<Rightarrow> error + 'b list" where
  \<comment> \<open>\<open>xs.map(f)\<close> for an \<open>f\<close> that may throw: the first throw ends the map\<close>
  "mapE f [] = Inr []"
| "mapE f (x # xs) =
     (case f x of
        Inl e \<Rightarrow> Inl e
      | Inr y \<Rightarrow> (case mapE f xs of Inl e \<Rightarrow> Inl e | Inr ys \<Rightarrow> Inr (y # ys)))"

definition getCandidates :: "validatorContract \<Rightarrow> error + string list" where
  "getCandidates c = mapE toXdcAddress (contractGetCandidates c)"

definition getVotersForCandidate :: "validatorContract \<Rightarrow> string \<Rightarrow> error + string list" where
  "getVotersForCandidate c candidateAddress =
     (case toEthAddress candidateAddress of
        Inl e \<Rightarrow> Inl e
      | Inr ethAddress \<Rightarrow> mapE toXdcAddress (contractGetVoters c ethAddress))"

definition validatorMember :: "string list \<Rightarrow> string \<Rightarrow> bool" where
  \<comment> \<open>\<open>candidates.map(a => a.toLowerCase()).slice(0, 108).includes(ethAddress.toLowerCase())\<close>\<close>
  "validatorMember candidates ethAddress =
     (toLowerCase ethAddress \<in> set (take 108 (map toLowerCase candidates)))"

definition masternodeStatus :: "bool \<Rightarrow> bool \<Rightarrow> status" where
  \<comment> \<open>\<open>!isCandidate ? 'resigned' : isValidator ? 'active' : 'proposed'\<close>\<close>
  "masternodeStatus isCandidate validator =
     (if \<not> isCandidate then Resigned else if validator then Active else Proposed)"

definition getMasternodeInfo :: "validatorContract \<Rightarrow> string \<Rightarrow> error + MasternodeInfo" where
  "getMasternodeInfo c candidateAddress =
     (case toEthAddress candidateAddress of
        Inl e \<Rightarrow> Inl e
      | Inr ethAddress \<Rightarrow>
          let stakeWei = contractGetCandidateCap c ethAddress;
              ownerAddress = contractGetCandidateOwner c ethAddress;
              isCandidate = contractIsCandidate c ethAddress;
              candidates = contractGetCandidates c
          in case getVotersForCandidate c candidateAddress of
               Inl e \<Rightarrow> Inl e
             | Inr voters \<Rightarrow>
                 let validator = validatorMember candidates ethAddress
                 in case toXdcAddress candidateAddress of
                      Inl e \<Rightarrow> Inl e
                    | Inr a \<Rightarrow>
                        (case toXdcAddress ownerAddress of
                           Inl e \<Rightarrow> Inl e
                         | Inr ow \<Rightarrow>
                             (case weiToXdc stakeWei of
                                Inl e \<Rightarrow> Inl e
                              | Inr sx \<Rightarrow>
                                  Inr \<lparr>address = a, owner = ow,
                                       stake = bigintToString stakeWei, stakeXdc = sx,
                                       voterCount = length voters,
                                       isValidator = validator,
                                       status = masternodeStatus isCandidate validator\<rparr>)))"

definition getCurrentEpoch :: "js_number \<Rightarrow> js_number" where
  \<comment> \<open>the argument is the block number the provider returned\<close>
  "getCurrentEpoch currentBlock = Math_floor (js_div currentBlock (Fin 900))"

definition getEpochInfo ::
  "validatorContract \<Rightarrow> js_number \<Rightarrow> js_number option \<Rightarrow> error + EpochInfo" where
  "getEpochInfo c currentBlock epochNumber =
     (let epochBlocks = Fin 900;
          epoch = (case epochNumber of
                     Some e \<Rightarrow> e
                   | None \<Rightarrow> Math_floor (js_div currentBlock epochBlocks));
          startB = js_mul epoch epochBlocks;
          endB = js_sub (js_add startB epochBlocks) (Fin 1)
      in case getCandidates c of
           Inl e \<Rightarrow> Inl e
         | Inr candidates \<Rightarrow>
             let validators = take 108 candidates;
                 blocksInEpoch = js_add (js_sub (Math_min endB currentBlock) startB) (Fin 1)
             in case BigInt blocksInEpoch of
                  Inl e \<Rightarrow> Inl e
                | Inr blocks \<Rightarrow>
                    (case parseEther ''0.25'' of
                       Inl e \<Rightarrow> Inl e
                     | Inr rewardPerBlock \<Rightarrow>
                         let rewardsWei = blocks * rewardPerBlock
                         in case weiToXdc rewardsWei of
                              Inl e \<Rightarrow> Inl e
                            | Inr rx \<Rightarrow>
                                Inr \<lparr>number = epoch, startBlock = startB, endBlock = endB,
                                     validatorSet = validators,
                                     rewards = bigintToString rewardsWei,
                                     rewardsXdc = rx\<rparr>))"

text \<open>
  \<open>calculateEstimatedRewards(stakeAmount, totalNetworkStake, blocksPerYear)\<close>. The two
  string arguments are read with \<open>BigInt(...)\<close> in the first two lines; the model takes
  the integers read. \<open>userYearlyRewards\<close> is the value of line 1062, the yearly figure
  in wei before it is formatted.
\<close>

definition userYearlyRewards :: "int \<Rightarrow> int \<Rightarrow> js_number \<Rightarrow> error + int" where
  "userYearlyRewards stakeWei totalStake blocksPerYear =
     (case parseEther ''0.25'' of
        Inl e \<Rightarrow> Inl e
      | Inr rewardPerBlock \<Rightarrow>
          let shareRatio = js_div (Number stakeWei) (Number totalStake)
          in case BigInt blocksPerYear of
               Inl e \<Rightarrow> Inl e
             | Inr blocks \<Rightarrow>
                 let yearlyRewards = blocks * rewardPerBlock
                 in BigInt (Math_floor (js_mul (Number yearlyRewards) shareRatio)))"

definition calculateEstimatedRewards ::
  "int \<Rightarrow> int \<Rightarrow> js_number \<Rightarrow> error + estimatedRewards" where
  "calculateEstimatedRewards stakeWei totalStake blocksPerYear =
     (if totalStake = 0
      then Inr \<lparr>daily = ''0'', monthly = ''0'', yearly = ''0'', apy = Text ''0''\<rparr>
      else case userYearlyRewards stakeWei totalStake blocksPerYear of
             Inl e \<Rightarrow> Inl e
           | Inr userYearly \<Rightarrow>
               let dailyRewards = bigintDiv userYearly 365;
                   monthlyRewards = bigintDiv userYearly 12;
                   apyNumber = js_mul (js_div (Number userYearly) (Number stakeWei)) (Fin 100)
               in case weiToXdc dailyRewards of
                    Inl e \<Rightarrow> Inl e
                  | Inr d \<Rightarrow>
                      (case weiToXdc monthlyRewards of
                         Inl e \<Rightarrow> Inl e
                       | Inr m \<Rightarrow>
                           (case weiToXdc userYearly of
                              Inl e \<Rightarrow> Inl e
                            | Inr y \<Rightarrow>
                                Inr \<lparr>daily = d, monthly = m, yearly = y,
                                     apy = toFixed2 apyNumber\<rparr>)))"

definition defaultBlocksPerYear :: "js_number" where
  "defaultBlocksPerYear = Fin 15768000"

section \<open>A sample contract state\<close>

text \<open>
  A contract state for the concrete instances below: 108 candidates with one address,
  then a 109th candidate with another address and nine times the stake.
\<close>

definition sampleValidator :: string where
  "sampleValidator = ''0x1234567890ABCDEF1234567890abcdef12345678''"

definition sampleStandby :: string where
  "sampleStandby = ''0xABCDEFabcdef0123456789ABCDEFabcdef012345''"

definition sampleContract :: validatorContract where
  "sampleContract =
     \<lparr>contractGetCandidates = replicate 108 sampleValidator @ [sampleStandby],
      contractGetCandidateCap =
        (\<lambda>a. if a = toLowerCase sampleStandby then 90000000000000000000000000
             else 10000000000000000000000000),
      contractGetCandidateOwner = (\<lambda>a. ''0x00000000000000000000000000000000000000aa''),
      contractIsCandidate = (\<lambda>a. True),
      contractGetVoters = (\<lambda>a. [])\<rparr>"

section \<open>Lemmas on strings and addresses\<close>

lemma toLowerCase_length [simp]: "length (toLowerCase s) = length s"
  by (simp add: toLowerCase_def)

lemma toLowerCase_append [simp]: "toLowerCase (s @ t) = toLowerCase s @ toLowerCase t"
  by (simp add: toLowerCase_def)

lemma toLowerCase_take: "toLowerCase (take n s) = take n (toLowerCase s)"
  by (simp add: toLowerCase_def take_map)

lemma toLowerCase_drop: "toLowerCase (drop n s) = drop n (toLowerCase s)"
  by (simp add: toLowerCase_def drop_map)

lemma toLowerCase_Nil_iff [simp]: "toLowerCase s = [] \<longleftrightarrow> s = []"
  by (simp add: toLowerCase_def)

lemma bit5_not_upper: "\<not> isUpperCaseChar (Char b0 b1 b2 b3 b4 True b6 b7)"
  by (cases b0; cases b1; cases b2; cases b3; cases b4; cases b6; cases b7;
      simp add: isUpperCaseChar_def)

lemma toLowerCaseChar_idem [simp]: "toLowerCaseChar (toLowerCaseChar c) = toLowerCaseChar c"
proof (cases "isUpperCaseChar c")
  case True
  then show ?thesis
    by (cases c) (simp add: toLowerCaseChar_def bit5_not_upper)
next
  case False
  then show ?thesis by (simp add: toLowerCaseChar_def)
qed

lemma toLowerCase_idem [simp]: "toLowerCase (toLowerCase s) = toLowerCase s"
  by (simp add: toLowerCase_def)

lemma hex_lower_not_x: "isHexDigit c \<Longrightarrow> toLowerCaseChar c \<noteq> CHR ''x''"
  by (auto simp add: isHexDigit_def toLowerCaseChar_def isUpperCaseChar_def)

lemma payload_first_two:
  assumes "isPayload p"
  obtains a b r where "p = a # b # r" "isHexDigit a" "isHexDigit b"
proof -
  from assms have len: "length p = 40" and hex: "list_all isHexDigit p"
    by (simp_all add: isPayload_def)
  from len obtain a q where p: "p = a # q" by (cases p) auto
  with len obtain b r where q: "q = b # r" by (cases q) auto
  from hex p q have "isHexDigit a" "isHexDigit b" by simp_all
  with p q that show thesis by blast
qed

lemma payload_no_tag:
  assumes "isPayload p"
  shows "\<not> startsWith ''xdc'' (toLowerCase p)" and "\<not> startsWith ''0x'' (toLowerCase p)"
proof -
  from assms obtain a b r where p: "p = a # b # r" and a: "isHexDigit a" and b: "isHexDigit b"
    by (rule payload_first_two)
  from a have "toLowerCaseChar a \<noteq> CHR ''x''" by (rule hex_lower_not_x)
  then show "\<not> startsWith ''xdc'' (toLowerCase p)"
    by (simp add: p startsWith_def toLowerCase_def)
  from b have "toLowerCaseChar b \<noteq> CHR ''x''" by (rule hex_lower_not_x)
  then show "\<not> startsWith ''0x'' (toLowerCase p)"
    by (simp add: p startsWith_def toLowerCase_def)
qed

lemma formatA_lower:
  assumes "isFormatA s"
  shows "toLowerCase s = ''xdc'' @ payloadOf s" and "length s = 43"
proof -
  from assms have tag: "toLowerCase (take 3 s) = ''xdc''" and pay: "isPayload (drop 3 s)"
    by (simp_all add: isFormatA_def)
  from pay have "length (drop 3 s) = 40" by (simp add: isPayload_def)
  then show len: "length s = 43" by simp
  have "toLowerCase s = toLowerCase (take 3 s @ drop 3 s)" by simp
  also have "\<dots> = ''xdc'' @ toLowerCase (drop 3 s)"
    unfolding toLowerCase_append tag ..
  finally show "toLowerCase s = ''xdc'' @ payloadOf s"
    by (simp add: payloadOf_def len)
qed

lemma formatB_lower:
  assumes "isFormatB s"
  shows "toLowerCase s = ''0x'' @ payloadOf s" and "length s = 42"
proof -
  from assms have tag: "toLowerCase (take 2 s) = ''0x''" and pay: "isPayload (drop 2 s)"
    by (simp_all add: isFormatB_def)
  from pay have "length (drop 2 s) = 40" by (simp add: isPayload_def)
  then show len: "length s = 42" by simp
  have "toLowerCase s = toLowerCase (take 2 s @ drop 2 s)" by simp
  also have "\<dots> = ''0x'' @ toLowerCase (drop 2 s)"
    unfolding toLowerCase_append tag ..
  finally show "toLowerCase s = ''0x'' @ payloadOf s"
    by (simp add: payloadOf_def len)
qed

lemma payload_lower:
  assumes "isPayload s"
  shows "payloadOf s = toLowerCase s" and "length s = 40"
  using assms by (simp_all add: isPayload_def payloadOf_def)

lemma toEthAddress_known:
  assumes "isKnownForm s"
  shows "toEthAddress s = Inr (''0x'' @ payloadOf s)"
proof -
  from assms consider (A) "isFormatA s" | (B) "isFormatB s" | (P) "isPayload s"
    by (auto simp add: isKnownForm_def)
  then show ?thesis
  proof cases
    case A
    from formatA_lower [OF A] have "s \<noteq> []" by auto
    with formatA_lower(1) [OF A] show ?thesis
      by (simp add: toEthAddress_def startsWith_def)
  next
    case B
    from formatB_lower [OF B] have "s \<noteq> []" by auto
    with formatB_lower(1) [OF B] show ?thesis
      by (simp add: toEthAddress_def startsWith_def)
  next
    case P
    from payload_lower [OF P] have "s \<noteq> []" by auto
    with payload_no_tag [OF P] payload_lower [OF P] show ?thesis
      by (simp add: toEthAddress_def)
  qed
qed

lemma toXdcAddress_known:
  assumes "isKnownForm s"
  shows "toXdcAddress s = Inr (''xdc'' @ payloadOf s)"
proof -
  from assms consider (A) "isFormatA s" | (B) "isFormatB s" | (P) "isPayload s"
    by (auto simp add: isKnownForm_def)
  then show ?thesis
  proof cases
    case A
    from formatA_lower [OF A] have "s \<noteq> []" by auto
    with formatA_lower(1) [OF A] show ?thesis
      by (simp add: toXdcAddress_def startsWith_def)
  next
    case B
    from formatB_lower [OF B] have "s \<noteq> []" by auto
    with formatB_lower(1) [OF B] show ?thesis
      by (simp add: toXdcAddress_def startsWith_def)
  next
    case P
    from payload_lower [OF P] have "s \<noteq> []" by auto
    with payload_no_tag [OF P] payload_lower [OF P] show ?thesis
      by (simp add: toXdcAddress_def)
  qed
qed

lemma payloadOf_lower [simp]: "toLowerCase (payloadOf s) = payloadOf s"
  by (simp add: payloadOf_def)

lemma payload_tagged:
  assumes "isPayload p"
  shows "isFormatA (''xdc'' @ toLowerCase p)" and "isFormatB (''0x'' @ toLowerCase p)"
    and "isPayload (toLowerCase p)"
proof -
  have hex: "isHexDigit (toLowerCaseChar c)" if "isHexDigit c" for c
    using that by (auto simp add: isHexDigit_def toLowerCaseChar_def isUpperCaseChar_def)
  from assms have "list_all isHexDigit (toLowerCase p)"
    by (simp add: isPayload_def toLowerCase_def list_all_iff hex)
  with assms show low: "isPayload (toLowerCase p)" by (simp add: isPayload_def)
  have "toLowerCase ''xdc'' = ''xdc''" "toLowerCase ''0x'' = ''0x''"
    by (simp_all add: toLowerCase_def toLowerCaseChar_def isUpperCaseChar_def)
  with low show "isFormatA (''xdc'' @ toLowerCase p)" "isFormatB (''0x'' @ toLowerCase p)"
    by (simp_all add: isFormatA_def isFormatB_def)
qed

lemma toEthAddress_Inl_iff:
  "isl (toEthAddress s) \<longleftrightarrow>
     s = [] \<or> (\<not> startsWith ''xdc'' (toLowerCase s) \<and> \<not> startsWith ''0x'' (toLowerCase s)
                \<and> length s \<noteq> 40)"
  by (auto simp add: toEthAddress_def Let_def)

lemma toXdcAddress_Inl_iff:
  "isl (toXdcAddress s) \<longleftrightarrow>
     s = [] \<or> (\<not> startsWith ''xdc'' (toLowerCase s) \<and> \<not> startsWith ''0x'' (toLowerCase s)
                \<and> length s \<noteq> 40)"
  by (auto simp add: toXdcAddress_def Let_def)

lemma toEthAddress_error:
  "toEthAddress s = Inl e \<Longrightarrow>
     e = Error ''Address is required'' \<or> e = Error (''Invalid address format: '' @ s)"
  by (auto simp add: toEthAddress_def Let_def split: if_splits)

lemma toXdcAddress_error:
  "toXdcAddress s = Inl e \<Longrightarrow>
     e = Error ''Address is required'' \<or> e = Error (''Invalid address format: '' @ s)"
  by (auto simp add: toXdcAddress_def Let_def split: if_splits)

lemma addressesEqual_known:
  assumes "isKnownForm a" and "isKnownForm b"
  shows "addressesEqual a b \<longleftrightarrow> payloadOf a = payloadOf b"
proof -
  have "a \<noteq> []" "b \<noteq> []"
    using assms toEthAddress_known [of a] toEthAddress_known [of b]
    by (auto simp add: toEthAddress_def)
  moreover have "toLowerCase (''0x'' @ t) = ''0x'' @ toLowerCase t" for t
    by (simp add: toLowerCase_def toLowerCaseChar_def isUpperCaseChar_def)
  ultimately show ?thesis
    using assms by (simp add: addressesEqual_def toEthAddress_known del: toLowerCase_append)
qed

section \<open>Lemmas on the masternode record\<close>

lemma getMasternodeInfo_Inr:
  assumes "getMasternodeInfo c a = Inr info"
  obtains eth voters xa ow sx where
    "toEthAddress a = Inr eth"
    "getVotersForCandidate c a = Inr voters"
    "toXdcAddress a = Inr xa"
    "toXdcAddress (contractGetCandidateOwner c eth) = Inr ow"
    "weiToXdc (contractGetCandidateCap c eth) = Inr sx"
    "info = \<lparr>address = xa, owner = ow,
              stake = bigintToString (contractGetCandidateCap c eth), stakeXdc = sx,
              voterCount = length voters,
              isValidator = validatorMember (contractGetCandidates c) eth,
              status = masternodeStatus (contractIsCandidate c eth)
                         (validatorMember (contractGetCandidates c) eth)\<rparr>"
proof -
  obtain eth where 1: "toEthAddress a = Inr eth"
    using assms by (cases "toEthAddress a") (simp_all add: getMasternodeInfo_def)
  obtain voters where 2: "getVotersForCandidate c a = Inr voters"
    using assms 1 by (cases "getVotersForCandidate c a") (simp_all add: getMasternodeInfo_def)
  obtain xa where 3: "toXdcAddress a = Inr xa"
    using assms 1 2 by (cases "toXdcAddress a") (simp_all add: getMasternodeInfo_def)
  obtain ow where 4: "toXdcAddress (contractGetCandidateOwner c eth) = Inr ow"
    using assms 1 2 3
    by (cases "toXdcAddress (contractGetCandidateOwner c eth)")
       (simp_all add: getMasternodeInfo_def)
  obtain sx where 5: "weiToXdc (contractGetCandidateCap c eth) = Inr sx"
    using assms 1 2 3 4
    by (cases "weiToXdc (contractGetCandidateCap c eth)")
       (simp_all add: getMasternodeInfo_def)
  from assms 1 2 3 4 5 have "info = \<lparr>address = xa, owner = ow,
              stake = bigintToString (contractGetCandidateCap c eth), stakeXdc = sx,
              voterCount = length voters,
              isValidator = validatorMember (contractGetCandidates c) eth,
              status = masternodeStatus (contractIsCandidate c eth)
                         (validatorMember (contractGetCandidates c) eth)\<rparr>"
    by (simp add: getMasternodeInfo_def Let_def)
  with 1 2 3 4 5 that show thesis by blast
qed

section \<open>Lemmas on binary64 rounding\<close>

lemma two_powi_pos [simp]: "0 < (2::rat) powi n"
  by (simp add: zero_less_power_int)

lemma two_powi_nat: "0 \<le> n \<Longrightarrow> (2::rat) powi n = 2 ^ nat n"
  by (simp add: power_int_def)

lemma two_powi_add: "(2::rat) powi (m + n) = 2 powi m * 2 powi n"
  by (simp add: power_int_add)

lemma two_powi_diff: "(2::rat) powi (m - n) = 2 powi m / 2 powi n"
  by (simp add: power_int_diff)

lemma two_powi_mono: "m \<le> n \<Longrightarrow> (2::rat) powi m \<le> 2 powi n"
  by (simp add: power_int_increasing)

lemma two_powi_strict_mono: "m < n \<Longrightarrow> (2::rat) powi m < 2 powi n"
  by (simp add: power_int_strict_increasing)

lemma two_powi_less_cancel: "(2::rat) powi m < 2 powi n \<Longrightarrow> m < n"
  using two_powi_mono [of n m] by (cases "m < n") auto

lemma bitlen_pow_bounds:
  assumes "0 < a"
  shows "(2::rat) powi (bitlen a - 1) \<le> of_int a" and "of_int a < (2::rat) powi bitlen a"
proof -
  from assms have pos: "0 < bitlen a" using bitlen_eq_zero_iff [of a] bitlen_nonneg [of a] by linarith
  from bitlen_bounds [OF assms] have lo: "2 ^ nat (bitlen a - 1) \<le> a" and hi: "a < 2 ^ nat (bitlen a)"
    by simp_all
  from lo have "(of_int (2 ^ nat (bitlen a - 1)) :: rat) \<le> of_int a" by (simp only: of_int_le_iff)
  then show "(2::rat) powi (bitlen a - 1) \<le> of_int a"
    using pos by (simp add: two_powi_nat)
  from hi have "(of_int a :: rat) < of_int (2 ^ nat (bitlen a))" by (simp only: of_int_less_iff)
  then show "of_int a < (2::rat) powi bitlen a"
    using pos by (simp add: two_powi_nat)
qed

lemma ilog2_bounds:
  assumes "0 < q"
  shows "2 powi (ilog2 q) \<le> q" and "q < 2 powi (ilog2 q + 1)"
proof -
  obtain a b where qab: "quotient_of q = (a, b)" by (cases "quotient_of q")
  then have b: "0 < b" and q: "q = of_int a / of_int b"
    by (simp_all add: quotient_of_denom_pos quotient_of_div)
  with assms have a: "0 < a" by (simp add: zero_less_divide_iff)
  let ?d = "bitlen a - bitlen b"
  have up: "q < 2 powi (?d + 1)"
  proof -
    have "of_int a < (2::rat) powi bitlen a" using a by (rule bitlen_pow_bounds)
    moreover have "(2::rat) powi (bitlen b - 1) \<le> of_int b" using b by (rule bitlen_pow_bounds)
    ultimately have "of_int a / of_int b < (2::rat) powi bitlen a / 2 powi (bitlen b - 1)"
      using a b by (intro frac_less) simp_all
    also have "\<dots> = 2 powi (?d + 1)"
      by (simp add: two_powi_diff [symmetric] algebra_simps)
    finally show ?thesis by (simp add: q)
  qed
  have low: "2 powi (?d - 1) \<le> q"
  proof -
    have "(2::rat) powi (bitlen a - 1) \<le> of_int a" using a by (rule bitlen_pow_bounds)
    moreover have "of_int b \<le> (2::rat) powi bitlen b"
      using bitlen_pow_bounds(2) [OF b] by simp
    ultimately have "(2::rat) powi (bitlen a - 1) / 2 powi bitlen b \<le> of_int a / of_int b"
      using a b by (intro frac_le) simp_all
    moreover have "(2::rat) powi (bitlen a - 1) / 2 powi bitlen b = 2 powi (?d - 1)"
      by (simp add: two_powi_diff [symmetric] algebra_simps)
    ultimately show ?thesis by (simp add: q)
  qed
  have il: "ilog2 q = (if 2 powi ?d \<le> q then ?d else ?d - 1)"
    by (simp add: ilog2_def qab Let_def)
  show "2 powi (ilog2 q) \<le> q" using low by (simp add: il)
  show "q < 2 powi (ilog2 q + 1)" using up by (auto simp add: il)
qed

lemma ilog2_unique:
  assumes "0 < q" and "2 powi e \<le> q" and "q < 2 powi (e + 1)"
  shows "ilog2 q = e"
proof -
  from ilog2_bounds [OF assms(1)] assms(2,3)
  have "(2::rat) powi e < 2 powi (ilog2 q + 1)" "(2::rat) powi (ilog2 q) < 2 powi (e + 1)"
    by linarith+
  then have "e < ilog2 q + 1" "ilog2 q < e + 1" by (auto dest: two_powi_less_cancel)
  then show ?thesis by simp
qed

declare power_int_numeral [simp del] power_int_numeral_neg_numeral [simp del]

lemma roundHalfEven_cases: "roundHalfEven x = \<lfloor>x\<rfloor> \<or> roundHalfEven x = \<lfloor>x\<rfloor> + 1"
  by (simp add: roundHalfEven_def Let_def)

lemma roundHalfEven_err: "\<bar>of_int (roundHalfEven x) - x\<bar> \<le> 1 / 2"
proof -
  have "of_int \<lfloor>x\<rfloor> \<le> x" "x < of_int \<lfloor>x\<rfloor> + 1" by linarith+
  then show ?thesis
    by (auto simp add: roundHalfEven_def Let_def abs_le_iff)
qed

lemma roundHalfEven_of_int [simp]: "roundHalfEven (of_int n) = n"
  by (simp add: roundHalfEven_def)

lemma roundHalfEven_ge: "of_int n \<le> x \<Longrightarrow> n \<le> roundHalfEven x"
proof -
  assume "of_int n \<le> x"
  then have "n \<le> \<lfloor>x\<rfloor>" by (simp add: le_floor_iff)
  with roundHalfEven_cases [of x] show ?thesis by auto
qed

lemma roundHalfEven_le: "x \<le> of_int n \<Longrightarrow> roundHalfEven x \<le> n"
proof -
  assume le: "x \<le> of_int n"
  show ?thesis
  proof (cases "x = of_int n")
    case True
    then show ?thesis by simp
  next
    case False
    with le have "x < of_int n" by simp
    then have "\<lfloor>x\<rfloor> < n" by (simp add: floor_less_iff)
    with roundHalfEven_cases [of x] show ?thesis by auto
  qed
qed

lemma roundHalfEven_eqI: "\<bar>x - of_int m\<bar> < 1 / 2 \<Longrightarrow> roundHalfEven x = m"
proof -
  assume a: "\<bar>x - of_int m\<bar> < 1 / 2"
  have "\<bar>of_int (roundHalfEven x) - x\<bar> \<le> 1 / 2" by (rule roundHalfEven_err)
  with a have "\<bar>(of_int (roundHalfEven x) :: rat) - of_int m\<bar> < 1" by linarith
  then have "\<bar>(of_int (roundHalfEven x - m) :: rat)\<bar> < 1" by simp
  then have "\<bar>roundHalfEven x - m\<bar> < 1"
    by (metis of_int_abs of_int_less_1_iff)
  then show ?thesis by simp
qed

lemma roundHalfEven_nonneg: "0 \<le> x \<Longrightarrow> 0 \<le> roundHalfEven x"
  using roundHalfEven_ge [of 0 x] by simp

text \<open>The rounding of a positive value, with the exponent named.\<close>

lemma roundDouble_pos:
  assumes "0 < q"
  shows "roundDouble q =
          (let p = max (ilog2 q - 52) (- 1074); m = roundHalfEven (q / 2 powi p)
           in if (2::rat) powi 1024 \<le> of_int m * 2 powi p then PosInf
              else Fin (of_int m * 2 powi p))"
  using assms by (simp add: roundDouble_def Let_def)

lemma roundDouble_minus: "roundDouble (- q) = js_neg (roundDouble q)"
proof -
  consider "q = 0" | "0 < q" | "q < 0" by linarith
  then show ?thesis
    by cases (auto simp add: roundDouble_def Let_def)
qed


lemma significand_le:
  assumes "0 < q" and "q < 2 powi (e + 1)"
  shows "roundHalfEven (q / 2 powi (e - 52)) \<le> 2 ^ 53"
proof -
  have "q / 2 powi (e - 52) \<le> 2 powi (e + 1) / 2 powi (e - 52)"
    using assms by (intro divide_right_mono) simp_all
  also have "\<dots> = 2 powi 53"
    by (simp add: two_powi_diff [symmetric])
  also have "\<dots> = of_int (2 ^ 53)" by (simp add: power_int_numeral)
  finally show ?thesis by (rule roundHalfEven_le)
qed

lemma significand_ge:
  assumes "2 powi e \<le> q"
  shows "2 ^ 52 \<le> roundHalfEven (q / 2 powi (e - 52))"
proof -
  have "(of_int (2 ^ 52) :: rat) = 2 powi 52" by (simp add: power_int_numeral)
  also have "\<dots> = 2 powi e / 2 powi (e - 52)"
    by (simp add: two_powi_diff [symmetric])
  also have "\<dots> \<le> q / 2 powi (e - 52)"
    using assms by (intro divide_right_mono) simp_all
  finally show ?thesis by (rule roundHalfEven_ge)
qed

lemma roundDouble_normal:
  assumes lo: "2 powi e \<le> q" and hi: "q < 2 powi (e + 1)"
    and emin: "- 1022 \<le> e" and emax: "e < 1023"
  shows "roundDouble q = Fin (of_int (roundHalfEven (q / 2 powi (e - 52))) * 2 powi (e - 52))"
proof -
  from lo have q: "0 < q" using two_powi_pos [of e] by linarith
  have il: "ilog2 q = e" using q lo hi by (rule ilog2_unique)
  have p: "max (ilog2 q - 52) (- 1074) = e - 52" using emin by (simp add: il)
  let ?m = "roundHalfEven (q / 2 powi (e - 52))"
  have "?m \<le> 2 ^ 53" using q hi by (rule significand_le)
  then have "(of_int ?m :: rat) \<le> of_int (2 ^ 53)" by (simp only: of_int_le_iff)
  then have "(of_int ?m :: rat) \<le> 2 powi 53" by (simp add: power_int_numeral)
  then have "(of_int ?m :: rat) * 2 powi (e - 52) \<le> 2 powi 53 * 2 powi (e - 52)"
    by (intro mult_right_mono) simp_all
  also have "\<dots> = 2 powi (e + 1)" by (simp add: two_powi_add [symmetric] ac_simps)
  also have "\<dots> < 2 powi 1024" using emax by (intro two_powi_strict_mono) simp
  finally have "\<not> (2::rat) powi 1024 \<le> of_int ?m * 2 powi (e - 52)" by simp
  then show ?thesis
    unfolding roundDouble_pos [OF q] p Let_def by simp
qed

lemma roundDouble_eval:
  assumes "2 powi e \<le> q" and "q < 2 powi (e + 1)" and "- 1022 \<le> e" and "e < 1023"
    and "\<bar>q / 2 powi (e - 52) - of_int m\<bar> < 1 / 2"
  shows "roundDouble q = Fin (of_int m * 2 powi (e - 52))"
  using roundDouble_normal [OF assms(1-4)] roundHalfEven_eqI [OF assms(5)] by simp

lemma roundDouble_rel_err:
  assumes lo: "2 powi (- 1022) \<le> q" and hi: "q < 2 powi 1023"
  shows "\<exists>x. roundDouble q = Fin x \<and> q * (1 - 1 / 2 ^ 53) \<le> x \<and> x \<le> q * (1 + 1 / 2 ^ 53)"
proof -
  from lo have q: "0 < q" using two_powi_pos [of "- 1022"] by linarith
  let ?e = "ilog2 q"
  note b = ilog2_bounds [OF q]
  have "(2::rat) powi (- 1022) < 2 powi (?e + 1)" using lo b(2) by linarith
  then have emin: "- 1022 \<le> ?e" by (auto dest: two_powi_less_cancel)
  have "(2::rat) powi ?e < 2 powi 1023" using hi b(1) by linarith
  then have emax: "?e < 1023" by (auto dest: two_powi_less_cancel)
  let ?p = "?e - 52"
  let ?m = "roundHalfEven (q / 2 powi ?p)"
  let ?x = "of_int ?m * 2 powi ?p"
  have rd: "roundDouble q = Fin ?x" using b emin emax by (rule roundDouble_normal)
  have "\<bar>of_int ?m - q / 2 powi ?p\<bar> \<le> 1 / 2" by (rule roundHalfEven_err)
  then have "\<bar>of_int ?m - q / 2 powi ?p\<bar> * 2 powi ?p \<le> 1 / 2 * 2 powi ?p"
    by (intro mult_right_mono) simp_all
  moreover have "\<bar>of_int ?m - q / 2 powi ?p\<bar> * 2 powi ?p = \<bar>?x - q\<bar>"
  proof -
    have "\<bar>of_int ?m - q / 2 powi ?p\<bar> * 2 powi ?p = \<bar>(of_int ?m - q / 2 powi ?p) * 2 powi ?p\<bar>"
      by (simp add: abs_mult)
    also have "(of_int ?m - q / 2 powi ?p) * 2 powi ?p = ?x - q"
      by (simp add: algebra_simps)
    finally show ?thesis .
  qed
  moreover have "1 / 2 * (2::rat) powi ?p = 2 powi ?e / 2 ^ 53"
  proof -
    have "(2::rat) powi ?p = 2 powi ?e / 2 powi 52" by (simp add: two_powi_diff)
    then show ?thesis by (simp add: power_int_numeral)
  qed
  moreover have "(2::rat) powi ?e / 2 ^ 53 \<le> q / 2 ^ 53"
    using b(1) by (intro divide_right_mono) simp_all
  ultimately have "\<bar>?x - q\<bar> \<le> q / 2 ^ 53" by linarith
  then have "q - q / 2 ^ 53 \<le> ?x" "?x \<le> q + q / 2 ^ 53" by linarith+
  moreover have "q * (1 - 1 / 2 ^ 53) = q - q / 2 ^ 53" "q * (1 + 1 / 2 ^ 53) = q + q / 2 ^ 53"
    by (simp_all add: algebra_simps)
  ultimately have "q * (1 - 1 / 2 ^ 53) \<le> ?x \<and> ?x \<le> q * (1 + 1 / 2 ^ 53)"
    by simp
  with rd show ?thesis by blast
qed

lemma two_powi_le_cancel: "(2::rat) powi m \<le> 2 powi n \<Longrightarrow> m \<le> n"
  using two_powi_strict_mono [of n m] by (cases "m \<le> n") auto

lemma roundDouble_int_exact:
  assumes "\<bar>n\<bar> \<le> 2 ^ 53"
  shows "roundDouble (of_int n) = Fin (of_int n)"
proof -
  have pos: "roundDouble (of_int k) = Fin (of_int k)" if k: "0 < k" "k \<le> 2 ^ 53" for k :: int
  proof -
    define q :: rat where "q = of_int k"
    define e where "e = ilog2 q"
    from k have q: "0 < q" by (simp add: q_def)
    have b: "2 powi e \<le> q" "q < 2 powi (e + 1)"
      unfolding e_def using q by (rule ilog2_bounds)+
    have "(2::rat) powi 0 \<le> q" using k by (simp add: q_def)
    with b(2) have "(2::rat) powi 0 < 2 powi (e + 1)" by linarith
    then have "0 < e + 1" by (rule two_powi_less_cancel)
    then have e0: "0 \<le> e" by simp
    have "q \<le> of_int (2 ^ 53)" unfolding q_def using k(2) by (simp only: of_int_le_iff)
    then have q53: "q \<le> 2 powi 53" by (simp add: power_int_numeral)
    with b(1) have "(2::rat) powi e \<le> 2 powi 53" by linarith
    then have e53: "e \<le> 53" by (rule two_powi_le_cancel)
    have rd: "roundDouble q = Fin (of_int (roundHalfEven (q / 2 powi (e - 52))) * 2 powi (e - 52))"
      using b e0 e53 by (intro roundDouble_normal) simp_all
    have "\<exists>K::int. q / 2 powi (e - 52) = of_int K"
    proof (cases "e \<le> 52")
      case True
      have "(2::rat) powi (e - 52) = 1 / 2 powi (52 - e)"
        using power_int_minus_divide [of "2::rat" "52 - e"] by simp
      also have "(2::rat) powi (52 - e) = 2 ^ nat (52 - e)"
        using True by (simp add: two_powi_nat)
      finally have "q / 2 powi (e - 52) = of_int (k * 2 ^ nat (52 - e))" by (simp add: q_def)
      then show ?thesis by blast
    next
      case False
      with e53 have e: "e = 53" by simp
      from b(1) e q53 have "q = 2 powi 53" by simp
      then have "q / 2 powi (e - 52) = 2 powi 53 / 2 powi 1" by (simp add: e)
      also have "\<dots> = of_int (2 ^ 52)" by (simp add: power_int_numeral)
      finally show ?thesis by blast
    qed
    then obtain K :: int where K: "q / 2 powi (e - 52) = of_int K" by blast
    then have "of_int K * 2 powi (e - 52) = q" by (simp add: field_simps)
    with rd K show ?thesis by (simp add: q_def)
  qed
  consider "n = 0" | "0 < n" | "n < 0" by linarith
  then show ?thesis
  proof cases
    case 1
    then show ?thesis by (simp add: roundDouble_def)
  next
    case 2
    with assms show ?thesis by (intro pos) simp_all
  next
    case 3
    with assms have "roundDouble (of_int (- n)) = Fin (of_int (- n))" by (intro pos) simp_all
    moreover have "roundDouble (of_int n) = js_neg (roundDouble (of_int (- n)))"
      using roundDouble_minus [of "of_int (- n)"] by simp
    ultimately show ?thesis by simp
  qed
qed

lemma Number_exact: "\<bar>n\<bar> \<le> 2 ^ 53 \<Longrightarrow> Number n = Fin (of_int n)"
  by (simp add: Number_def roundDouble_int_exact)

lemma js_mul_int:
  "\<bar>a * b\<bar> \<le> 2 ^ 53 \<Longrightarrow> js_mul (Fin (of_int a)) (Fin (of_int b)) = Fin (of_int (a * b))"
  using roundDouble_int_exact [of "a * b"] by simp

lemma js_add_int:
  "\<bar>a + b\<bar> \<le> 2 ^ 53 \<Longrightarrow> js_add (Fin (of_int a)) (Fin (of_int b)) = Fin (of_int (a + b))"
  using roundDouble_int_exact [of "a + b"] by simp

lemma js_sub_int:
  "\<bar>a - b\<bar> \<le> 2 ^ 53 \<Longrightarrow> js_sub (Fin (of_int a)) (Fin (of_int b)) = Fin (of_int (a - b))"
  using roundDouble_int_exact [of "a - b"] by (simp add: js_sub_def)

lemma Math_min_int: "Math_min (Fin (of_int a)) (Fin (of_int b)) = Fin (of_int (min a b))"
  by (simp add: min_def)

lemma BigInt_int [simp]: "BigInt (Fin (of_int n)) = Inr n"
  by simp

text \<open>Division of a block height by the epoch length.\<close>

lemma div900:
  assumes h0: "0 \<le> h" and h53: "h < 2 ^ 53"
  shows "\<exists>x. roundDouble (of_int h / 900) = Fin x
           \<and> of_int (h div 900) \<le> x \<and> x < of_int (h div 900) + 1
           \<and> (x = of_int (h div 900) \<longleftrightarrow> h mod 900 = 0)"
proof (cases "h mod 900 = 0")
  case True
  then have "(of_int h :: rat) = of_int (h div 900) * 900"
    by (metis of_int_mult of_int_numeral mult.commute mult_div_mod_eq add.right_neutral)
  then have q: "(of_int h :: rat) / 900 = of_int (h div 900)" by simp
  have "\<bar>h div 900\<bar> \<le> 2 ^ 53" using h0 h53 by simp
  then have "roundDouble (of_int (h div 900)) = Fin (of_int (h div 900))"
    by (rule roundDouble_int_exact)
  with q True show ?thesis by simp
next
  case False
  define k where "k = h div 900"
  define r where "r = h mod 900"
  define q :: rat where "q = of_int h / 900"
  have h: "h = k * 900 + r" by (simp add: k_def r_def)
  have r: "1 \<le> r" "r \<le> 899" using False pos_mod_sign [of 900 h] pos_mod_bound [of 900 h]
    by (simp_all add: r_def)
  have k0: "0 \<le> k" using h0 by (simp add: k_def)
  have qk: "q = of_int k + of_int r / 900" by (simp add: q_def h)
  have qlo: "of_int k + 1 / 900 \<le> q" using r(1) by (simp add: qk)
  have qhi: "q \<le> of_int k + 1 - 1 / 900"
  proof -
    have "(of_int r :: rat) \<le> 899" using r(2) by simp
    then show ?thesis by (simp add: qk)
  qed
  have qpos: "0 < q" using qlo k0 by (simp add: add_nonneg_pos)
  let ?e = "ilog2 q"
  note b = ilog2_bounds [OF qpos]
  have "q < 2 powi 44"
  proof -
    have "(of_int h :: rat) < of_int (2 ^ 53)" using h53 by (simp only: of_int_less_iff)
    then have "q < 2 ^ 53 / 900" by (simp add: q_def)
    also have "\<dots> < 2 powi 44" by (simp add: power_int_numeral)
    finally show ?thesis .
  qed
  with b(1) have "(2::rat) powi ?e < 2 powi 44" by linarith
  then have e44: "?e < 44" by (rule two_powi_less_cancel)
  have "(2::rat) powi (- 10) < q"
  proof -
    have "(2::rat) powi (- 10) < 1 / 900" by (simp add: power_int_numeral_neg_numeral)
    also have "\<dots> \<le> q" using qlo k0 by simp
    finally show ?thesis .
  qed
  with b(2) have "(2::rat) powi (- 10) < 2 powi (?e + 1)" by linarith
  then have "- 10 < ?e + 1" by (rule two_powi_less_cancel)
  then have e10: "- 11 < ?e" by simp
  define p where "p = ?e - 52"
  define s :: int where "s = 2 ^ nat (- p)"
  have p9: "p \<le> - 9" using e44 by (simp add: p_def)
  have pw: "(2::rat) powi p = 1 / of_int s"
  proof -
    have "(2::rat) powi p = 1 / 2 powi (- p)"
      using power_int_minus_divide [of "2::rat" "- p"] by simp
    also have "(2::rat) powi (- p) = 2 ^ nat (- p)" using p9 by (simp add: two_powi_nat)
    finally show ?thesis by (simp add: s_def)
  qed
  have s512: "512 \<le> s"
  proof -
    have "(2::int) ^ 9 \<le> 2 ^ nat (- p)" using p9 by (intro power_increasing) simp_all
    then show ?thesis by (simp add: s_def)
  qed
  then have spos: "0 < s" by simp
  define m where "m = roundHalfEven (q / 2 powi p)"
  have rd: "roundDouble q = Fin (of_int m * 2 powi p)"
    unfolding m_def p_def using b e10 e44 by (intro roundDouble_normal) simp_all
  have scaled: "q / 2 powi p = q * of_int s" by (simp add: pw)
  have err: "\<bar>of_int m - q * of_int s\<bar> \<le> 1 / 2"
    using roundHalfEven_err [of "q / 2 powi p"] by (simp add: m_def scaled)
  have gap: "(1::rat) / 2 < of_int s / 900"
  proof -
    have "(512::rat) \<le> of_int s" using s512 by (metis of_int_le_iff of_int_numeral)
    then show ?thesis by simp
  qed
  have lo: "of_int (k * s) < (of_int m :: rat)"
  proof -
    have "(of_int k + 1 / 900) * of_int s \<le> q * of_int s"
      using qlo spos by (intro mult_right_mono) simp_all
    then have "of_int k * of_int s + of_int s / 900 \<le> q * of_int s"
      by (simp add: algebra_simps)
    with err gap show ?thesis unfolding of_int_mult by linarith
  qed
  have hi: "(of_int m :: rat) < of_int ((k + 1) * s)"
  proof -
    have "q * of_int s \<le> (of_int k + 1 - 1 / 900) * of_int s"
      using qhi spos by (intro mult_right_mono) simp_all
    then have "q * of_int s \<le> of_int k * of_int s + of_int s - of_int s / 900"
      by (simp add: algebra_simps)
    moreover have "(of_int ((k + 1) * s) :: rat) = of_int k * of_int s + of_int s"
      by (simp add: algebra_simps)
    ultimately show ?thesis using err gap by linarith
  qed
  have x: "of_int m * (2::rat) powi p = of_int m / of_int s" by (simp add: pw)
  have "of_int k < (of_int m :: rat) / of_int s"
    using lo spos by (simp add: pos_less_divide_eq)
  moreover have "(of_int m :: rat) / of_int s < of_int k + 1"
    using hi spos by (simp add: pos_divide_less_eq algebra_simps)
  ultimately show ?thesis
    using rd False by (auto simp add: x q_def k_def)
qed

section \<open>Lemmas on the epoch functions and the text functions\<close>

lemma replicate_numeral: "replicate (numeral k) x = x # replicate (pred_numeral k) x"
  by (simp add: numeral_eq_Suc)

lemma showNat_numeral:
  "showNat (numeral k) = (if numeral k < (10::nat) then [digitChar (numeral k)]
      else showNat (numeral k div 10) @ [digitChar (numeral k mod 10)])"
  by (rule showNat.simps)

lemma digitChar_simps:
  "digitChar 0 = CHR ''0''" "digitChar 1 = CHR ''1''" "digitChar 2 = CHR ''2''"
  "digitChar 3 = CHR ''3''" "digitChar 4 = CHR ''4''" "digitChar 5 = CHR ''5''"
  "digitChar 6 = CHR ''6''" "digitChar 7 = CHR ''7''" "digitChar 8 = CHR ''8''"
  "digitChar 9 = CHR ''9''" "digitChar (Suc 0) = CHR ''1''"
  by (simp_all add: digitChar_def)

lemma showNat_small: "showNat 0 = ''0''" "showNat 1 = ''1''" "showNat (Suc 0) = ''1''"
  by (simp_all add: digitChar_simps)

lemmas eval_text = showNat_numeral showNat_small digitChar_simps replicate_numeral

lemma parseEther_quarter: "parseEther ''0.25'' = Inr 250000000000000000"
  by (simp add: parseEther_def parseUnits_def startsWith_def isDigit_def readNat_def
      digitValue_def replicate_numeral)

lemma weiToXdc_Inr:
  "- (2 ^ 511) \<le> v \<Longrightarrow> v < 2 ^ 511 \<Longrightarrow> weiToXdc v = Inr (fixedToString v 18)"
  by (simp add: weiToXdc_def formatEther_def formatUnits_def)

lemma getCurrentEpoch_Fin: "getCurrentEpoch (Fin a) = Math_floor (roundDouble (a / 900))"
  by (simp add: getCurrentEpoch_def)

lemma neg_div900:
  "(- g) div 900 = (if g mod 900 = 0 then - (g div 900) else - (g div 900) - 1)" for g :: int
  by (rule zdiv_zminus1_eq_if) simp

lemma getCurrentEpoch_nonneg:
  assumes "0 \<le> h" "h < 2 ^ 53"
  shows "getCurrentEpoch (Fin (of_int h)) = Fin (of_int (h div 900))"
proof -
  from div900 [OF assms] obtain x where
    x: "roundDouble (of_int h / 900) = Fin x \<and> of_int (h div 900) \<le> x
          \<and> x < of_int (h div 900) + 1 \<and> (x = of_int (h div 900) \<longleftrightarrow> h mod 900 = 0)"
    by (rule exE)
  then have "of_int (h div 900) \<le> x" "x < of_int (h div 900) + 1" by (simp_all only:)
  then have "\<lfloor>x\<rfloor> = h div 900" by (rule floor_unique)
  moreover from x have "roundDouble (of_int h / 900) = Fin x" by (simp only:)
  ultimately show ?thesis by (simp only: getCurrentEpoch_Fin Math_floor.simps)
qed

lemma getCurrentEpoch_neg:
  assumes "h < 0" "- (2 ^ 53) < h"
  shows "getCurrentEpoch (Fin (of_int h)) = Fin (of_int (h div 900))"
proof -
  define g where "g = - h"
  have hg: "h = - g" by (simp add: g_def)
  from assms have g: "0 \<le> g" "g < 2 ^ 53" by (simp_all add: g_def)
  from div900 [OF g] obtain x where
    xx: "roundDouble (of_int g / 900) = Fin x \<and> of_int (g div 900) \<le> x
           \<and> x < of_int (g div 900) + 1 \<and> (x = of_int (g div 900) \<longleftrightarrow> g mod 900 = 0)"
    by (rule exE)
  from xx have x: "roundDouble (of_int g / 900) = Fin x" "of_int (g div 900) \<le> x"
     "x < of_int (g div 900) + 1" "x = of_int (g div 900) \<longleftrightarrow> g mod 900 = 0"
    by (simp_all only:)
  have "(of_int h :: rat) / 900 = - (of_int g / 900)" unfolding hg by simp
  then have "roundDouble (of_int h / 900) = js_neg (roundDouble (of_int g / 900))"
    by (simp only: roundDouble_minus)
  then have rd: "roundDouble (of_int h / 900) = Fin (- x)" by (simp only: x(1) js_neg.simps)
  have "\<lfloor>- x\<rfloor> = (- g) div 900"
  proof (cases "g mod 900 = 0")
    case True
    with x(4) have "x = of_int (g div 900)" by simp
    then have "- x = of_int (- (g div 900))" by simp
    then have "\<lfloor>- x\<rfloor> = - (g div 900)" by (simp only: floor_of_int)
    moreover have "(- g) div 900 = - (g div 900)" using True neg_div900 [of g] by simp
    ultimately show ?thesis by simp
  next
    case False
    with x(2,4) have "of_int (g div 900) < x" by simp
    with x(3) have "of_int (- (g div 900) - 1) \<le> - x" "- x < of_int (- (g div 900) - 1) + 1"
      by simp_all
    then have "\<lfloor>- x\<rfloor> = - (g div 900) - 1" by (rule floor_unique)
    moreover have "(- g) div 900 = - (g div 900) - 1" using False neg_div900 [of g] by simp
    ultimately show ?thesis by simp
  qed
  then have "\<lfloor>- x\<rfloor> = h div 900" unfolding hg .
  then show ?thesis by (simp only: getCurrentEpoch_Fin rd Math_floor.simps)
qed

lemma getCurrentEpoch_int:
  assumes "\<bar>h\<bar> < 2 ^ 53"
  shows "getCurrentEpoch (Fin (of_int h)) = Fin (of_int (h div 900))"
proof (cases "0 \<le> h")
  case True
  with assms show ?thesis by (intro getCurrentEpoch_nonneg) simp_all
next
  case False
  with assms show ?thesis by (intro getCurrentEpoch_neg) simp_all
qed

lemma getEpochInfo_Some_int:
  assumes cands: "getCandidates c = Inr cands"
    and h: "0 \<le> h" "h \<le> 2 ^ 53"
    and e: "\<bar>e\<bar> * 900 + 900 \<le> 2 ^ 53"
  shows "getEpochInfo c (Fin (of_int h)) (Some (Fin (of_int e))) =
           Inr \<lparr>number = Fin (of_int e),
                startBlock = Fin (of_int (e * 900)),
                endBlock = Fin (of_int (e * 900 + 899)),
                validatorSet = take 108 cands,
                rewards = bigintToString
                  ((min (e * 900 + 899) h - e * 900 + 1) * 250000000000000000),
                rewardsXdc = fixedToString
                  ((min (e * 900 + 899) h - e * 900 + 1) * 250000000000000000) 18\<rparr>"
proof -
  define blocks where "blocks = min (e * 900 + 899) h - e * 900 + 1"
  have 1: "js_mul (Fin (of_int e)) (Fin 900) = Fin (of_int (e * 900))"
    using js_mul_int [of e 900] e by (simp add: abs_mult)
  have 2: "js_add (Fin (of_int (e * 900))) (Fin 900) = Fin (of_int (e * 900 + 900))"
    using js_add_int [of "e * 900" 900] e by simp
  have 3: "js_sub (Fin (of_int (e * 900 + 900))) (Fin 1) = Fin (of_int (e * 900 + 899))"
    using js_sub_int [of "e * 900 + 900" 1] e by simp
  have 4: "Math_min (Fin (of_int (e * 900 + 899))) (Fin (of_int h))
             = Fin (of_int (min (e * 900 + 899) h))"
    by (rule Math_min_int)
  have rng: "- (2 ^ 53) \<le> blocks - 1" "blocks \<le> 900"
    using h e by (auto simp add: blocks_def min_def)
  have 5: "js_sub (Fin (of_int (min (e * 900 + 899) h))) (Fin (of_int (e * 900)))
             = Fin (of_int (blocks - 1))"
    using js_sub_int [of "min (e * 900 + 899) h" "e * 900"] rng by (simp add: blocks_def)
  have 6: "js_add (Fin (of_int (blocks - 1))) (Fin 1) = Fin (of_int blocks)"
    using js_add_int [of "blocks - 1" 1] rng by simp
  have 7: "weiToXdc (blocks * 250000000000000000)
             = Inr (fixedToString (blocks * 250000000000000000) 18)"
    using rng by (intro weiToXdc_Inr) simp_all
  note steps = 1 2 3 4 5 [unfolded blocks_def] 6 [unfolded blocks_def] 7 [unfolded blocks_def]
  show ?thesis
    by (simp only: getEpochInfo_def Let_def option.case steps BigInt_int cands sum.case
        parseEther_quarter)
qed

lemma mapE_length: "mapE f xs = Inr ys \<Longrightarrow> length ys = length xs"
  by (induction xs arbitrary: ys) (auto split: sum.splits)

lemma mapE_append:
  "mapE f (xs @ ys) =
     (case mapE f xs of
        Inl e \<Rightarrow> Inl e
      | Inr a \<Rightarrow> (case mapE f ys of Inl e \<Rightarrow> Inl e | Inr b \<Rightarrow> Inr (a @ b)))"
  by (induction xs) (auto split: sum.splits)

lemma mapE_replicate: "f x = Inr y \<Longrightarrow> mapE f (replicate n x) = Inr (replicate n y)"
  by (induction n) auto

lemma toEthAddress_lower: "toEthAddress a = Inr e \<Longrightarrow> toLowerCase e = e"
proof -
  have "toLowerCase (''0x'' @ t) = ''0x'' @ toLowerCase t" for t
    by (simp add: toLowerCase_def toLowerCaseChar_def isUpperCaseChar_def)
  then show "toEthAddress a = Inr e \<Longrightarrow> toLowerCase e = e"
    by (auto simp add: toEthAddress_def Let_def toLowerCase_drop simp del: toLowerCase_append
        split: if_splits)
qed

lemma validatorMember_iff:
  "validatorMember cs eth \<longleftrightarrow>
     (\<exists>i < min (length cs) 108. toLowerCase (cs ! i) = toLowerCase eth)"
proof -
  have "validatorMember cs eth \<longleftrightarrow>
          (\<exists>i < length (take 108 (map toLowerCase cs)).
              take 108 (map toLowerCase cs) ! i = toLowerCase eth)"
    unfolding validatorMember_def in_set_conv_nth ..
  also have "\<dots> \<longleftrightarrow> (\<exists>i < min (length cs) 108. toLowerCase (cs ! i) = toLowerCase eth)"
    by (auto simp add: min_def)
  finally show ?thesis .
qed

lemma getEpochInfo_Inr:
  assumes "getEpochInfo c cur en = Inr ei"
  obtains cands where "getCandidates c = Inr cands" "validatorSet ei = take 108 cands"
proof -
  obtain cands where 1: "getCandidates c = Inr cands"
    using assms by (cases "getCandidates c") (simp_all add: getEpochInfo_def Let_def)
  define epoch where
    "epoch = (case en of Some e \<Rightarrow> e | None \<Rightarrow> Math_floor (js_div cur (Fin 900)))"
  define startB where "startB = js_mul epoch (Fin 900)"
  define endB where "endB = js_sub (js_add startB (Fin 900)) (Fin 1)"
  define bie where "bie = js_add (js_sub (Math_min endB cur) startB) (Fin 1)"
  have unf: "getEpochInfo c cur en =
      (case BigInt bie of
         Inl e \<Rightarrow> Inl e
       | Inr blocks \<Rightarrow>
           (case parseEther ''0.25'' of
              Inl e \<Rightarrow> Inl e
            | Inr rewardPerBlock \<Rightarrow>
                (case weiToXdc (blocks * rewardPerBlock) of
                   Inl e \<Rightarrow> Inl e
                 | Inr rx \<Rightarrow>
                     Inr \<lparr>number = epoch, startBlock = startB, endBlock = endB,
                          validatorSet = take 108 cands,
                          rewards = bigintToString (blocks * rewardPerBlock),
                          rewardsXdc = rx\<rparr>)))"
    by (simp only: getEpochInfo_def Let_def 1 sum.case epoch_def startB_def endB_def bie_def)
  obtain blocks where 2: "BigInt bie = Inr blocks"
    using assms by (cases "BigInt bie") (simp_all add: unf)
  obtain rpb where 3: "parseEther ''0.25'' = Inr rpb"
    using assms 2 by (cases "parseEther ''0.25''") (simp_all add: unf)
  obtain rx where 4: "weiToXdc (blocks * rpb) = Inr rx"
    using assms 2 3 by (cases "weiToXdc (blocks * rpb)") (simp_all add: unf)
  from assms have "validatorSet ei = take 108 cands"
    by (auto simp add: unf 2 3 4)
  with 1 that show thesis by blast
qed

lemma getEpochInfo_None:
  "getEpochInfo c cur None = getEpochInfo c cur (Some (getCurrentEpoch cur))"
  by (simp only: getEpochInfo_def getCurrentEpoch_def Let_def option.case)

lemma epoch_range_unique:
  "(e * 900 \<le> h \<and> h \<le> e * 900 + 899) \<longleftrightarrow> e = h div 900" for h e :: int
proof
  assume a: "e * 900 \<le> h \<and> h \<le> e * 900 + 899"
  have "h = 900 * e + (h - e * 900)" by simp
  moreover from a have "0 \<le> h - e * 900" "h - e * 900 < 900" by simp_all
  ultimately have "h div 900 = e" by (rule int_div_pos_eq)
  then show "e = h div 900" by simp
next
  assume e: "e = h div 900"
  have "h = h div 900 * 900 + h mod 900" by simp
  moreover have "0 \<le> h mod 900" "h mod 900 < 900" by simp_all
  ultimately show "e * 900 \<le> h \<and> h \<le> e * 900 + 899" unfolding e by linarith
qed


section \<open>Lemmas on the sample contract state\<close>

lemma lower_sampleValidator:
  "toLowerCase sampleValidator = ''0x1234567890abcdef1234567890abcdef12345678''"
  by (simp add: sampleValidator_def toLowerCase_def toLowerCaseChar_def isUpperCaseChar_def)

lemma lower_sampleStandby:
  "toLowerCase sampleStandby = ''0xabcdefabcdef0123456789abcdefabcdef012345''"
  by (simp add: sampleStandby_def toLowerCase_def toLowerCaseChar_def isUpperCaseChar_def)

lemma sample_toXdc:
  "toXdcAddress sampleValidator = Inr ''xdc1234567890abcdef1234567890abcdef12345678''"
  "toXdcAddress sampleStandby = Inr ''xdcabcdefabcdef0123456789abcdefabcdef012345''"
proof -
  have "sampleValidator \<noteq> []" "sampleStandby \<noteq> []"
    by (simp_all add: sampleValidator_def sampleStandby_def)
  then show "toXdcAddress sampleValidator = Inr ''xdc1234567890abcdef1234567890abcdef12345678''"
    "toXdcAddress sampleStandby = Inr ''xdcabcdefabcdef0123456789abcdefabcdef012345''"
    by (simp_all add: toXdcAddress_def lower_sampleValidator lower_sampleStandby startsWith_def)
qed

lemma sample_toEth:
  "toEthAddress sampleStandby = Inr ''0xabcdefabcdef0123456789abcdefabcdef012345''"
  "toEthAddress sampleValidator = Inr ''0x1234567890abcdef1234567890abcdef12345678''"
proof -
  have "sampleValidator \<noteq> []" "sampleStandby \<noteq> []"
    by (simp_all add: sampleValidator_def sampleStandby_def)
  then show "toEthAddress sampleStandby = Inr ''0xabcdefabcdef0123456789abcdefabcdef012345''"
    "toEthAddress sampleValidator = Inr ''0x1234567890abcdef1234567890abcdef12345678''"
    by (simp_all add: toEthAddress_def lower_sampleValidator lower_sampleStandby startsWith_def)
qed

lemma sample_candidates:
  "getCandidates sampleContract =
     Inr (replicate 108 ''xdc1234567890abcdef1234567890abcdef12345678''
          @ [''xdcabcdefabcdef0123456789abcdefabcdef012345''])"
  by (simp add: getCandidates_def sampleContract_def mapE_append
      mapE_replicate [of toXdcAddress sampleValidator, OF sample_toXdc(1)] sample_toXdc(2))

lemma sample_member:
  "\<not> validatorMember (contractGetCandidates sampleContract)
       ''0xabcdefabcdef0123456789abcdefabcdef012345''"
  "validatorMember (contractGetCandidates sampleContract)
       ''0x1234567890abcdef1234567890abcdef12345678''"
proof -
  have low: "toLowerCase ''0xabcdefabcdef0123456789abcdefabcdef012345''
               = ''0xabcdefabcdef0123456789abcdefabcdef012345''"
    "toLowerCase ''0x1234567890abcdef1234567890abcdef12345678''
               = ''0x1234567890abcdef1234567890abcdef12345678''"
    by (simp_all add: toLowerCase_def toLowerCaseChar_def isUpperCaseChar_def)
  have "take 108 (map toLowerCase (contractGetCandidates sampleContract))
          = replicate 108 ''0x1234567890abcdef1234567890abcdef12345678''"
    by (simp add: sampleContract_def lower_sampleValidator)
  then show "\<not> validatorMember (contractGetCandidates sampleContract)
       ''0xabcdefabcdef0123456789abcdefabcdef012345''"
    "validatorMember (contractGetCandidates sampleContract)
       ''0x1234567890abcdef1234567890abcdef12345678''"
    by (simp_all add: validatorMember_def low)
qed

lemma sample_info_standby:
  "getMasternodeInfo sampleContract sampleStandby =
     Inr \<lparr>address = ''xdcabcdefabcdef0123456789abcdefabcdef012345'',
          owner = ''xdc00000000000000000000000000000000000000aa'',
          stake = ''90000000000000000000000000'', stakeXdc = ''90000000.0'',
          voterCount = 0, isValidator = False, status = Proposed\<rparr>"
proof -
  have own: "toXdcAddress ''0x00000000000000000000000000000000000000aa''
               = Inr ''xdc00000000000000000000000000000000000000aa''"
    by (simp add: toXdcAddress_def startsWith_def toLowerCase_def toLowerCaseChar_def
        isUpperCaseChar_def)
  have fmt: "weiToXdc 90000000000000000000000000 = Inr ''90000000.0''"
    by (simp add: weiToXdc_def formatEther_def formatUnits_def fixedToString_def eval_text)
  have str: "bigintToString 90000000000000000000000000 = ''90000000000000000000000000''"
    by (simp add: bigintToString_def eval_text)
  have sel: "contractGetCandidateCap sampleContract ''0xabcdefabcdef0123456789abcdefabcdef012345''
               = 90000000000000000000000000"
    "contractGetCandidateOwner sampleContract ''0xabcdefabcdef0123456789abcdefabcdef012345''
               = ''0x00000000000000000000000000000000000000aa''"
    "contractIsCandidate sampleContract ''0xabcdefabcdef0123456789abcdefabcdef012345''"
    "contractGetVoters sampleContract ''0xabcdefabcdef0123456789abcdefabcdef012345'' = []"
    by (simp_all add: sampleContract_def lower_sampleStandby)
  show ?thesis
    by (simp only: getMasternodeInfo_def getVotersForCandidate_def sample_toEth sample_toXdc
        sum.case Let_def sel own fmt str sample_member mapE.simps masternodeStatus_def
        list.size if_True if_False simp_thms)
qed

lemma sample_epoch_minus1:
  "getEpochInfo sampleContract (Fin 1850) (Some (Fin (- 1))) =
     Inr \<lparr>number = Fin (- 1), startBlock = Fin (- 900), endBlock = Fin (- 1),
          validatorSet = replicate 108 ''xdc1234567890abcdef1234567890abcdef12345678'',
          rewards = ''225000000000000000000'', rewardsXdc = ''225.0''\<rparr>"
proof -
  have "getEpochInfo sampleContract (Fin (of_int 1850)) (Some (Fin (of_int (- 1)))) =
           Inr \<lparr>number = Fin (of_int (- 1)),
                startBlock = Fin (of_int (- 1 * 900)),
                endBlock = Fin (of_int (- 1 * 900 + 899)),
                validatorSet = take 108 (replicate 108 ''xdc1234567890abcdef1234567890abcdef12345678''
                    @ [''xdcabcdefabcdef0123456789abcdefabcdef012345'']),
                rewards = bigintToString
                  ((min (- 1 * 900 + 899) 1850 - - 1 * 900 + 1) * 250000000000000000),
                rewardsXdc = fixedToString
                  ((min (- 1 * 900 + 899) 1850 - - 1 * 900 + 1) * 250000000000000000) 18\<rparr>"
    by (intro getEpochInfo_Some_int sample_candidates) simp_all
  moreover have "bigintToString 225000000000000000000 = ''225000000000000000000''"
    by (simp add: bigintToString_def eval_text)
  moreover have "fixedToString 225000000000000000000 18 = ''225.0''"
    by (simp add: fixedToString_def eval_text)
  ultimately show ?thesis by simp
qed


lemma sample_info_validator_form:
  assumes "toEthAddress a = Inr ''0x1234567890abcdef1234567890abcdef12345678''"
    and "toXdcAddress a = Inr ''xdc1234567890abcdef1234567890abcdef12345678''"
  shows "getMasternodeInfo sampleContract a =
     Inr \<lparr>address = ''xdc1234567890abcdef1234567890abcdef12345678'',
          owner = ''xdc00000000000000000000000000000000000000aa'',
          stake = ''10000000000000000000000000'', stakeXdc = ''10000000.0'',
          voterCount = 0, isValidator = True, status = Active\<rparr>"
proof -
  have own: "toXdcAddress ''0x00000000000000000000000000000000000000aa''
               = Inr ''xdc00000000000000000000000000000000000000aa''"
    by (simp add: toXdcAddress_def startsWith_def toLowerCase_def toLowerCaseChar_def
        isUpperCaseChar_def)
  have fmt: "weiToXdc 10000000000000000000000000 = Inr ''10000000.0''"
    by (simp add: weiToXdc_def formatEther_def formatUnits_def fixedToString_def eval_text)
  have str: "bigintToString 10000000000000000000000000 = ''10000000000000000000000000''"
    by (simp add: bigintToString_def eval_text)
  have sel: "contractGetCandidateCap sampleContract ''0x1234567890abcdef1234567890abcdef12345678''
               = 10000000000000000000000000"
    "contractGetCandidateOwner sampleContract ''0x1234567890abcdef1234567890abcdef12345678''
               = ''0x00000000000000000000000000000000000000aa''"
    "contractIsCandidate sampleContract ''0x1234567890abcdef1234567890abcdef12345678''"
    "contractGetVoters sampleContract ''0x1234567890abcdef1234567890abcdef12345678'' = []"
    by (simp_all add: sampleContract_def lower_sampleStandby)
  show ?thesis
    by (simp only: getMasternodeInfo_def getVotersForCandidate_def assms
        sum.case Let_def sel own fmt str sample_member mapE.simps masternodeStatus_def
        list.size if_True if_False simp_thms)
qed

lemma sample_upper:
  "toEthAddress ''XDC1234567890ABCDEF1234567890ABCDEF12345678''
     = Inr ''0x1234567890abcdef1234567890abcdef12345678''"
  "toXdcAddress ''XDC1234567890ABCDEF1234567890ABCDEF12345678''
     = Inr ''xdc1234567890abcdef1234567890abcdef12345678''"
  by (simp_all add: toEthAddress_def toXdcAddress_def startsWith_def toLowerCase_def
      toLowerCaseChar_def isUpperCaseChar_def)

lemma sample_epoch_2:
  "getEpochInfo sampleContract (Fin 1850) (Some (Fin 2)) =
     Inr \<lparr>number = Fin 2, startBlock = Fin 1800, endBlock = Fin 2699,
          validatorSet = replicate 108 ''xdc1234567890abcdef1234567890abcdef12345678'',
          rewards = ''12750000000000000000'', rewardsXdc = ''12.75''\<rparr>"
proof -
  have "getEpochInfo sampleContract (Fin (of_int 1850)) (Some (Fin (of_int 2))) =
           Inr \<lparr>number = Fin (of_int 2),
                startBlock = Fin (of_int (2 * 900)),
                endBlock = Fin (of_int (2 * 900 + 899)),
                validatorSet = take 108 (replicate 108 ''xdc1234567890abcdef1234567890abcdef12345678''
                    @ [''xdcabcdefabcdef0123456789abcdefabcdef012345'']),
                rewards = bigintToString
                  ((min (2 * 900 + 899) 1850 - 2 * 900 + 1) * 250000000000000000),
                rewardsXdc = fixedToString
                  ((min (2 * 900 + 899) 1850 - 2 * 900 + 1) * 250000000000000000) 18\<rparr>"
    by (intro getEpochInfo_Some_int sample_candidates) simp_all
  moreover have "bigintToString 12750000000000000000 = ''12750000000000000000''"
    by (simp add: bigintToString_def eval_text)
  moreover have "fixedToString 12750000000000000000 18 = ''12.75''"
    by (simp add: fixedToString_def eval_text)
  ultimately show ?thesis by simp
qed


lemma roundHalfEven_tie_odd:
  assumes "odd f"
  shows "roundHalfEven (of_int f + 1 / 2) = f + 1"
proof -
  have fl: "\<lfloor>(of_int f :: rat) + 1 / 2\<rfloor> = f" by (rule floor_unique) simp_all
  show ?thesis
    unfolding roundHalfEven_def Let_def fl using assms by simp
qed

lemma roundDouble_last_epoch_end: "roundDouble 9007199254741499 = Fin 9007199254741500"
proof -
  have "roundDouble 9007199254741499 =
          Fin (of_int (roundHalfEven (9007199254741499 / 2 powi (53 - 52))) * 2 powi (53 - 52))"
    by (rule roundDouble_normal) (simp_all add: power_int_numeral)
  moreover have "(9007199254741499::rat) / 2 powi (53 - 52) = of_int 4503599627370749 + 1 / 2"
    by simp
  moreover have "roundHalfEven (of_int 4503599627370749 + 1 / 2) = 4503599627370749 + 1"
    by (rule roundHalfEven_tie_odd) simp
  ultimately show ?thesis by simp
qed

lemma roundDouble_last_epoch_next: "roundDouble 9007199254741500 = Fin 9007199254741500"
proof -
  have "roundDouble 9007199254741500 = Fin (of_int 4503599627370750 * 2 powi (53 - 52))"
    by (rule roundDouble_eval) (simp_all add: power_int_numeral)
  then show ?thesis by simp
qed

lemma sample_last_epoch:
  "getEpochInfo sampleContract (Fin 9007199254740991) None =
     Inr \<lparr>number = Fin 10007999171934,
          startBlock = Fin 9007199254740600, endBlock = Fin 9007199254741500,
          validatorSet = replicate 108 ''xdc1234567890abcdef1234567890abcdef12345678'',
          rewards = ''98000000000000000000'', rewardsXdc = ''98.0''\<rparr>"
proof -
  have "getCurrentEpoch (Fin (of_int 9007199254740991))
          = Fin (of_int (9007199254740991 div 900))"
    by (rule getCurrentEpoch_nonneg) simp_all
  then have 0: "getCurrentEpoch (Fin 9007199254740991) = Fin 10007999171934" by simp
  have 1: "js_mul (Fin 10007999171934) (Fin 900) = Fin 9007199254740600"
    using js_mul_int [of 10007999171934 900] by simp
  have 2: "js_add (Fin 9007199254740600) (Fin 900) = Fin 9007199254741500"
    by (simp add: roundDouble_last_epoch_next)
  have 3: "js_sub (Fin 9007199254741500) (Fin 1) = Fin 9007199254741500"
    by (simp add: js_sub_def roundDouble_last_epoch_end)
  have 4: "Math_min (Fin 9007199254741500) (Fin 9007199254740991) = Fin 9007199254740991"
    by simp
  have 5: "js_sub (Fin 9007199254740991) (Fin 9007199254740600) = Fin 391"
    using js_sub_int [of 9007199254740991 9007199254740600] by simp
  have 6: "js_add (Fin 391) (Fin 1) = Fin 392"
    using js_add_int [of 391 1] by simp
  have 7: "BigInt (Fin 392) = Inr 392"
    using BigInt_int [of 392] by simp
  have 8: "(392::int) * 250000000000000000 = 98000000000000000000" by simp
  have 9: "weiToXdc 98000000000000000000 = Inr ''98.0''"
    by (simp add: weiToXdc_def formatEther_def formatUnits_def fixedToString_def eval_text)
  have 10: "bigintToString 98000000000000000000 = ''98000000000000000000''"
    by (simp add: bigintToString_def eval_text)
  have 11: "take 108 (replicate 108 ''xdc1234567890abcdef1234567890abcdef12345678''
              @ [''xdcabcdefabcdef0123456789abcdefabcdef012345''])
            = replicate 108 ''xdc1234567890abcdef1234567890abcdef12345678''"
    by simp
  show ?thesis
    unfolding getEpochInfo_None 0
    by (simp only: getEpochInfo_def Let_def option.case 1 2 3 4 5 6 7 8 9 10 11
        sample_candidates sum.case parseEther_quarter)
qed

lemma addressesEqual_iff:
  "addressesEqual a b \<longleftrightarrow>
     (\<exists>ea eb. toEthAddress a = Inr ea \<and> toEthAddress b = Inr eb \<and> ea = eb)"
proof (cases "toEthAddress a")
  case (Inl e)
  then show ?thesis by (simp add: addressesEqual_def)
next
  case a: (Inr ea)
  then have an: "a \<noteq> []" by (auto simp add: toEthAddress_def)
  show ?thesis
  proof (cases "toEthAddress b")
    case (Inl e)
    then show ?thesis by (simp add: addressesEqual_def a)
  next
    case b: (Inr eb)
    then have bn: "b \<noteq> []" by (auto simp add: toEthAddress_def)
    from a b have "toLowerCase ea = ea" "toLowerCase eb = eb"
      by (simp_all add: toEthAddress_lower)
    with a b an bn show ?thesis by (simp add: addressesEqual_def)
  qed
qed

section \<open>Lemmas on the unit conversion\<close>

lemma parseUnits_not_numeric:
  "\<not> isNumericText s \<Longrightarrow>
     parseUnits s d = Inl (InvalidArgument ''invalid FixedNumber string value'')"
  by (simp add: parseUnits_def isNumericText_def Let_def)

lemma parseUnits_negate:
  assumes nonneg: "\<not> startsWith ''-'' s" and ok: "parseUnits s d = Inr v"
  shows "0 \<le> v \<and> parseUnits (''-'' @ s) d = Inr (- v)"
proof -
  define whole where "whole = takeWhile isDigit s"
  define decimal where
    "decimal = (case dropWhile isDigit s of [] \<Rightarrow> []
                | c # cs \<Rightarrow> if c = CHR ''.'' then cs else dropWhile isDigit s)"
  define padded where "padded = decimal @ replicate (d - length decimal) CHR ''0''"
  define magnitude where
    "magnitude = int (readNat ((if whole = [] then ''0'' else whole) @ take d padded))"
  define bad where "bad \<longleftrightarrow> \<not> (list_all isDigit decimal \<and> 0 < length whole + length decimal)"
  define many where "many \<longleftrightarrow> \<not> list_all (\<lambda>c. c = CHR ''0'') (drop d padded)"
  have t: "tl (''-'' @ s) = s" by simp
  have n: "startsWith ''-'' (''-'' @ s) = True" by (simp add: startsWith_def)
  have p: "startsWith ''-'' s = False" using nonneg by simp
  have pos: "parseUnits s d =
      (if bad then Inl (InvalidArgument ''invalid FixedNumber string value'')
       else if many then Inl (NumericFault ''too many decimals for format'')
       else if magnitude < - (2 ^ 511) \<or> 2 ^ 511 \<le> magnitude then Inl (NumericFault ''overflow'')
       else Inr magnitude)"
    unfolding parseUnits_def Let_def bad_def many_def magnitude_def padded_def decimal_def
      whole_def p if_False not_not
    by (simp only: if_not_P not_not if_P split: if_splits)
  have neg: "parseUnits (''-'' @ s) d =
      (if bad then Inl (InvalidArgument ''invalid FixedNumber string value'')
       else if many then Inl (NumericFault ''too many decimals for format'')
       else if - magnitude < - (2 ^ 511) \<or> 2 ^ 511 \<le> - magnitude
            then Inl (NumericFault ''overflow'')
       else Inr (- magnitude))"
    unfolding parseUnits_def Let_def bad_def many_def magnitude_def padded_def decimal_def
      whole_def n t if_True not_not
    by (simp only: if_not_P not_not if_P split: if_splits)
  have m0: "0 \<le> magnitude" by (simp add: magnitude_def)
  from ok pos have v: "v = magnitude" and fine: "\<not> bad" "\<not> many" "magnitude < 2 ^ 511"
    by (auto split: if_splits)
  have "parseUnits (''-'' @ s) d = Inr (- magnitude)"
    unfolding neg using fine m0 by simp
  with v m0 show ?thesis by simp
qed

section \<open>Lemmas on the reward estimator\<close>

text \<open>Bounds on a rounded value: rounding is monotone and keeps the powers of two.\<close>

lemma roundDouble_le_pow2:
  assumes q0: "0 \<le> q" and qk: "q \<le> 2 powi k" and kmin: "- 1074 \<le> k" and kmax: "k \<le> 1023"
  shows "\<exists>x. roundDouble q = Fin x \<and> 0 \<le> x \<and> x \<le> 2 powi k"
proof (cases "q = 0")
  case True
  then show ?thesis by (simp add: roundDouble_def)
next
  case False
  with q0 have q: "0 < q" by simp
  define p where "p = max (ilog2 q - 52) (- 1074)"
  define m where "m = roundHalfEven (q / 2 powi p)"
  note b = ilog2_bounds [OF q]
  have "(2::rat) powi ilog2 q \<le> 2 powi k" using b(1) qk by linarith
  then have "ilog2 q \<le> k" by (rule two_powi_le_cancel)
  then have pk: "p \<le> k" using kmin by (simp add: p_def)
  have "q / 2 powi p \<le> 2 powi k / 2 powi p" using qk by (intro divide_right_mono) simp_all
  also have "\<dots> = 2 powi (k - p)" by (simp add: two_powi_diff)
  also have "\<dots> = 2 ^ nat (k - p)" using pk by (simp add: two_powi_nat)
  also have "\<dots> = of_int (2 ^ nat (k - p))" by simp
  finally have "m \<le> 2 ^ nat (k - p)" unfolding m_def by (rule roundHalfEven_le)
  then have "(of_int m :: rat) \<le> of_int (2 ^ nat (k - p))" by (simp only: of_int_le_iff)
  then have "(of_int m :: rat) \<le> 2 powi (k - p)" using pk by (simp add: two_powi_nat)
  then have "(of_int m :: rat) * 2 powi p \<le> 2 powi (k - p) * 2 powi p"
    by (intro mult_right_mono) simp_all
  also have "\<dots> = 2 powi k" by (simp add: two_powi_add [symmetric])
  finally have le: "(of_int m :: rat) * 2 powi p \<le> 2 powi k" .
  have "(2::rat) powi k < 2 powi 1024" using kmax by (intro two_powi_strict_mono) simp
  with le have fin: "\<not> (2::rat) powi 1024 \<le> of_int m * 2 powi p" by linarith
  have "0 \<le> m" unfolding m_def using q by (intro roundHalfEven_nonneg) simp
  then have "0 \<le> (of_int m :: rat) * 2 powi p" by simp
  with le fin show ?thesis
    unfolding roundDouble_pos [OF q] Let_def p_def [symmetric] m_def [symmetric] by simp
qed









lemma showNat_nonempty: "showNat n \<noteq> []"
  by (subst showNat.simps) simp





lemma roundDouble_ge_pow2:
  assumes lo: "2 powi k \<le> q" and kmin: "- 1022 \<le> k" and fin: "roundDouble q = Fin x"
  shows "2 powi k \<le> x"
proof -
  from lo have q: "0 < q" using two_powi_pos [of k] by linarith
  define e where "e = ilog2 q"
  note b = ilog2_bounds [OF q, folded e_def]
  have "(2::rat) powi k < 2 powi (e + 1)" using lo b(2) by linarith
  then have "k < e + 1" by (rule two_powi_less_cancel)
  then have ke: "k \<le> e" by simp
  have p: "max (ilog2 q - 52) (- 1074) = e - 52" using ke kmin by (simp add: e_def)
  define m where "m = roundHalfEven (q / 2 powi (e - 52))"
  have "2 ^ 52 \<le> m" unfolding m_def using b(1) by (rule significand_ge)
  then have "(of_int (2 ^ 52) :: rat) \<le> of_int m" by (simp only: of_int_le_iff)
  then have "(2::rat) powi 52 \<le> of_int m" by (simp add: power_int_numeral)
  then have "(2::rat) powi 52 * 2 powi (e - 52) \<le> of_int m * 2 powi (e - 52)"
    by (intro mult_right_mono) simp_all
  moreover have "(2::rat) powi 52 * 2 powi (e - 52) = 2 powi e"
    by (simp add: two_powi_add [symmetric])
  moreover have "(2::rat) powi k \<le> 2 powi e" using ke by (rule two_powi_mono)
  ultimately have "2 powi k \<le> (of_int m :: rat) * 2 powi (e - 52)" by simp
  with fin show ?thesis
    unfolding roundDouble_pos [OF q] p Let_def m_def [symmetric] by (simp split: if_splits)
qed

lemma roundDouble_bracket:
  assumes lo: "2 powi l \<le> q" and hi: "q \<le> 2 powi h"
    and lmin: "- 1022 \<le> l" and hmax: "h \<le> 1022"
  shows "\<exists>x. roundDouble q = Fin x
            \<and> q * (1 - 1 / 2 ^ 53) \<le> x \<and> x \<le> q * (1 + 1 / 2 ^ 53)
            \<and> 2 powi l \<le> x \<and> x \<le> 2 powi h"
proof -
  have "(2::rat) powi l \<le> 2 powi h" using lo hi by linarith
  then have lh: "l \<le> h" by (rule two_powi_le_cancel)
  have "(2::rat) powi (- 1022) \<le> 2 powi l" using lmin by (rule two_powi_mono)
  with lo have 1: "2 powi (- 1022) \<le> q" by linarith
  have "(2::rat) powi h < 2 powi 1023" using hmax by (intro two_powi_strict_mono) simp
  with hi have 2: "q < 2 powi 1023" by linarith
  from roundDouble_rel_err [OF 1 2] obtain x where
    x: "roundDouble q = Fin x" "q * (1 - 1 / 2 ^ 53) \<le> x" "x \<le> q * (1 + 1 / 2 ^ 53)"
    by (elim exE conjE)
  have q0: "0 \<le> q" using 1 two_powi_pos [of "- 1022"] by linarith
  have "- 1074 \<le> h" "h \<le> 1023" using lmin lh hmax by simp_all
  with roundDouble_le_pow2 [OF q0 hi] x(1) have "x \<le> 2 powi h" by auto
  moreover have "2 powi l \<le> x" using lo lmin x(1) by (rule roundDouble_ge_pow2)
  ultimately show ?thesis using x by (intro exI [of _ x] conjI)
qed

lemma Number_bracket:
  assumes "0 < n" and "n < 2 ^ 256"
  shows "\<exists>x. Number n = Fin x
            \<and> of_int n * (1 - 1 / 2 ^ 53) \<le> x \<and> x \<le> of_int n * (1 + 1 / 2 ^ 53)
            \<and> 1 \<le> x \<and> x \<le> 2 powi 256"
proof -
  have lo: "(2::rat) powi 0 \<le> of_int n" using assms(1) by simp
  have "(of_int n :: rat) \<le> of_int (2 ^ 256)" using assms(2) by (simp only: of_int_le_iff)
  then have hi: "(of_int n :: rat) \<le> 2 powi 256" by (simp add: power_int_numeral)
  from roundDouble_bracket [OF lo hi] show ?thesis by (simp add: Number_def)
qed

text \<open>The relative error of the share ratio and of the yearly figure.\<close>

lemma roundoff_pos: "0 < 1 - unitRoundoff" "0 < 1 + unitRoundoff"
  by (simp_all add: unitRoundoff_def)

lemma roundDouble_roundoff:
  assumes lo: "2 powi l \<le> q" and hi: "q \<le> 2 powi h"
    and lmin: "- 1022 \<le> l" and hmax: "h \<le> 1022"
  shows "\<exists>x. roundDouble q = Fin x
            \<and> q * (1 - unitRoundoff) \<le> x \<and> x \<le> q * (1 + unitRoundoff)
            \<and> 2 powi l \<le> x \<and> x \<le> 2 powi h"
  unfolding unitRoundoff_def using assms by (rule roundDouble_bracket)

lemma Number_roundoff:
  assumes "0 < n" and "n < 2 ^ 256"
  shows "\<exists>x. Number n = Fin x
            \<and> of_int n * (1 - unitRoundoff) \<le> x \<and> x \<le> of_int n * (1 + unitRoundoff)
            \<and> 1 \<le> x \<and> x \<le> 2 powi 256"
  unfolding unitRoundoff_def using assms by (rule Number_bracket)

lemma shareRatio_value:
  assumes s: "0 < s" "s < 2 ^ 256" and t: "0 < t" "t < 2 ^ 256"
  shows "\<exists>S r. Number s = Fin S \<and> 1 \<le> S
           \<and> js_div (Number s) (Number t) = Fin r
           \<and> 2 powi (- 256) \<le> r \<and> r \<le> 2 powi 256
           \<and> of_int s / of_int t * ((1 - unitRoundoff) * (1 - unitRoundoff) / (1 + unitRoundoff)) \<le> r
           \<and> r \<le> of_int s / of_int t * ((1 + unitRoundoff) * (1 + unitRoundoff) / (1 - unitRoundoff))"
proof -
  define a :: rat where "a = 1 - unitRoundoff"
  define b :: rat where "b = 1 + unitRoundoff"
  have ab: "0 < a" "0 < b" using roundoff_pos by (simp_all add: a_def b_def)
  from Number_roundoff [OF s] obtain S where
    S: "Number s = Fin S" "of_int s * a \<le> S" "S \<le> of_int s * b" "1 \<le> S" "S \<le> 2 powi 256"
    unfolding a_def b_def by (elim exE conjE)
  from Number_roundoff [OF t] obtain T where
    T: "Number t = Fin T" "of_int t * a \<le> T" "T \<le> of_int t * b" "1 \<le> T" "T \<le> 2 powi 256"
    unfolding a_def b_def by (elim exE conjE)
  have sp: "(0::rat) < of_int s" "(0::rat) < of_int t" using s t by simp_all
  have lo: "2 powi (- 256) \<le> S / T"
  proof -
    have "1 / 2 powi 256 \<le> S / T" using S(4) T(5) T(4) by (intro frac_le) simp_all
    then show ?thesis by (simp add: power_int_minus divide_inverse)
  qed
  have hi: "S / T \<le> 2 powi 256"
  proof -
    have "S / T \<le> 2 powi 256 / 1" using S(4,5) T(4) by (intro frac_le) simp_all
    then show ?thesis by simp
  qed
  have "\<exists>r. roundDouble (S / T) = Fin r \<and> S / T * a \<le> r \<and> r \<le> S / T * b
          \<and> 2 powi (- 256) \<le> r \<and> r \<le> 2 powi 256"
    unfolding a_def b_def by (rule roundDouble_roundoff [OF lo hi]) simp_all
  then obtain r where
    r: "roundDouble (S / T) = Fin r" "S / T * a \<le> r" "r \<le> S / T * b"
       "2 powi (- 256) \<le> r" "r \<le> 2 powi 256"
    by (elim exE conjE)
  have T0: "T \<noteq> 0" using T(4) by simp
  have d: "js_div (Number s) (Number t) = Fin r" by (simp add: S(1) T(1) T0 r(1))
  have "of_int s * a / (of_int t * b) \<le> S / T"
    using S(2) T(3) sp ab T(4) S(4) by (intro frac_le) simp_all
  then have "of_int s * a / (of_int t * b) * a \<le> S / T * a"
    using ab by (intro mult_right_mono) simp_all
  moreover have "of_int s * a / (of_int t * b) * a = of_int s / of_int t * (a * a / b)" by simp
  ultimately have 1: "of_int s / of_int t * (a * a / b) \<le> r" using r(2) by linarith
  have "S / T \<le> of_int s * b / (of_int t * a)"
    using S(3) T(2) sp ab S(4) by (intro frac_le) simp_all
  then have "S / T * b \<le> of_int s * b / (of_int t * a) * b"
    using ab by (intro mult_right_mono) simp_all
  moreover have "of_int s * b / (of_int t * a) * b = of_int s / of_int t * (b * b / a)" by simp
  ultimately have 2: "r \<le> of_int s / of_int t * (b * b / a)" using r(3) by linarith
  from S(1,4) d r(4,5) 1 2 show ?thesis
    unfolding a_def b_def by (intro exI [of _ S] exI [of _ r] conjI)
qed

lemma userYearly_value:
  assumes s: "0 < s" "s < 2 ^ 256" and t: "0 < t" "t < 2 ^ 256"
    and n: "0 < n" "n \<le> 2 ^ 53"
  shows "\<exists>z. userYearlyRewards s t (Fin (of_int n)) = Inr \<lfloor>z\<rfloor>
           \<and> 2 powi (- 256) \<le> z \<and> z \<le> 2 powi 367
           \<and> of_int (n * 250000000000000000) * (of_int s / of_int t)
               * ((1 - unitRoundoff) ^ 4 / (1 + unitRoundoff)) \<le> z
           \<and> z \<le> of_int (n * 250000000000000000) * (of_int s / of_int t)
               * ((1 + unitRoundoff) ^ 4 / (1 - unitRoundoff))"
proof -
  define a :: rat where "a = 1 - unitRoundoff"
  define b :: rat where "b = 1 + unitRoundoff"
  define Y :: rat where "Y = of_int (n * 250000000000000000)"
  define R :: rat where "R = of_int s / of_int t"
  have ab: "0 < a" "0 < b" using roundoff_pos by (simp_all add: a_def b_def)
  have R0: "0 \<le> R" using s t by (simp add: R_def)
  from shareRatio_value [OF s t] obtain r where
    r: "js_div (Number s) (Number t) = Fin r" "2 powi (- 256) \<le> r" "r \<le> 2 powi 256"
       "R * (a * a / b) \<le> r" "r \<le> R * (b * b / a)"
    unfolding a_def b_def R_def by (elim exE conjE)
  have r0: "0 \<le> r" using r(2) two_powi_pos [of "- 256"] by linarith
  have "1 \<le> n * 250000000000000000" using n(1) by simp
  then have "(of_int 1 :: rat) \<le> of_int (n * 250000000000000000)" by (simp only: of_int_le_iff)
  then have Ylo: "2 powi 0 \<le> Y" by (simp add: Y_def)
  have "n * 250000000000000000 \<le> 2 ^ 53 * 250000000000000000"
    using n(2) by (intro mult_right_mono) simp_all
  also have "\<dots> \<le> 2 ^ 111" by simp
  finally have "(of_int (n * 250000000000000000) :: rat) \<le> of_int (2 ^ 111)"
    by (simp only: of_int_le_iff)
  then have Yhi: "Y \<le> 2 powi 111" by (simp add: Y_def power_int_numeral)
  have "\<exists>c. roundDouble Y = Fin c \<and> Y * a \<le> c \<and> c \<le> Y * b \<and> 2 powi 0 \<le> c \<and> c \<le> 2 powi 111"
    unfolding a_def b_def by (rule roundDouble_roundoff [OF Ylo Yhi]) simp_all
  then obtain c where
    c: "roundDouble Y = Fin c" "Y * a \<le> c" "c \<le> Y * b" "2 powi 0 \<le> c" "c \<le> 2 powi 111"
    by (elim exE conjE)
  have c1: "1 \<le> c" using c(4) by simp
  have Y0: "0 \<le> Y" using Ylo two_powi_pos [of 0] by simp
  have lo: "2 powi (- 256) \<le> c * r"
  proof -
    have "1 * 2 powi (- 256) \<le> c * r" using c1 r(2) r0 by (intro mult_mono) simp_all
    then show ?thesis by simp
  qed
  have hi: "c * r \<le> 2 powi 367"
  proof -
    have "c * r \<le> 2 powi 111 * 2 powi 256" using c(5) r(3) r0 by (intro mult_mono) simp_all
    then show ?thesis by (simp add: two_powi_add [symmetric])
  qed
  have "\<exists>z. roundDouble (c * r) = Fin z \<and> c * r * a \<le> z \<and> z \<le> c * r * b
          \<and> 2 powi (- 256) \<le> z \<and> z \<le> 2 powi 367"
    unfolding a_def b_def by (rule roundDouble_roundoff [OF lo hi]) simp_all
  then obtain z where
    z: "roundDouble (c * r) = Fin z" "c * r * a \<le> z" "z \<le> c * r * b"
       "2 powi (- 256) \<le> z" "z \<le> 2 powi 367"
    by (elim exE conjE)
  have "Y * a * (R * (a * a / b)) \<le> c * r"
    using c(2) r(4) Y0 R0 ab r0 c1 by (intro mult_mono) simp_all
  then have "Y * a * (R * (a * a / b)) * a \<le> c * r * a"
    using ab by (intro mult_right_mono) simp_all
  moreover have "Y * a * (R * (a * a / b)) * a = Y * R * (a ^ 4 / b)"
    by (simp add: power4_eq_xxxx)
  ultimately have 1: "Y * R * (a ^ 4 / b) \<le> z" using z(2) by linarith
  have "c * r \<le> Y * b * (R * (b * b / a))"
    using c(3) r(5) Y0 R0 ab r0 by (intro mult_mono) simp_all
  then have "c * r * b \<le> Y * b * (R * (b * b / a)) * b"
    using ab by (intro mult_right_mono) simp_all
  moreover have "Y * b * (R * (b * b / a)) * b = Y * R * (b ^ 4 / a)"
    by (simp add: power4_eq_xxxx)
  ultimately have 2: "z \<le> Y * R * (b ^ 4 / a)" using z(3) by linarith
  have "userYearlyRewards s t (Fin (of_int n)) = Inr \<lfloor>z\<rfloor>"
    using r(1) c(1) z(1)
    by (simp add: userYearlyRewards_def parseEther_quarter Let_def Number_def Y_def)
  with z(4,5) 1 2 show ?thesis
    unfolding a_def b_def Y_def R_def by (intro exI [of _ z] conjI)
qed

lemma roundoff_factor:
  "1 - 1 / 2 ^ 50 \<le> (1 - unitRoundoff) ^ 4 / (1 + unitRoundoff)"
  "(1 + unitRoundoff) ^ 4 / (1 - unitRoundoff) \<le> 1 + 1 / 2 ^ 50"
  by (simp_all add: unitRoundoff_def power_divide)


lemma bigintDiv_bounds:
  assumes "0 < b"
  shows "min y 0 \<le> bigintDiv y b \<and> bigintDiv y b \<le> max y 0"
proof -
  have "\<bar>y\<bar> div b \<le> \<bar>y\<bar> div 1" using assms by (intro zdiv_mono2) simp_all
  moreover have "0 \<le> \<bar>y\<bar> div b" using assms by (simp add: pos_imp_zdiv_nonneg_iff)
  ultimately show ?thesis
    using assms by (cases "y < 0") (auto simp add: bigintDiv_def sgn_if)
qed

lemma bigintDiv_range:
  assumes "0 < b" and "lo \<le> 0" and "0 < hi" and "lo \<le> y" and "y < hi"
  shows "lo \<le> bigintDiv y b" and "bigintDiv y b < hi"
  using bigintDiv_bounds [OF assms(1), of y] assms(2-5) by (auto simp add: min_def max_def split: if_splits)


lemma userYearly_steps:
  assumes "js_div (Number s) (Number t) = Fin r" and "BigInt b = Inr n"
    and "Number (n * 250000000000000000) = Fin c" and "js_mul (Fin c) (Fin r) = Fin z"
  shows "userYearlyRewards s t b = Inr \<lfloor>z\<rfloor>"
  using assms by (simp add: userYearlyRewards_def parseEther_quarter Let_def)


lemma rewards_of_yearly:
  assumes "t \<noteq> 0" and "userYearlyRewards s t b = Inr y"
    and "- (2 ^ 511) \<le> y" and "y < 2 ^ 511"
  shows "calculateEstimatedRewards s t b =
           Inr \<lparr>daily = fixedToString (bigintDiv y 365) 18,
                monthly = fixedToString (bigintDiv y 12) 18,
                yearly = fixedToString y 18,
                apy = toFixed2 (js_mul (js_div (Number y) (Number s)) (Fin 100))\<rparr>"
proof -
  have lh: "- (2 ^ 511) \<le> (0::int)" "(0::int) < 2 ^ 511" by simp_all
  have 1: "weiToXdc (bigintDiv y 365) = Inr (fixedToString (bigintDiv y 365) 18)"
    by (rule weiToXdc_Inr; rule bigintDiv_range [OF _ lh assms(3,4)]) simp_all
  have 2: "weiToXdc (bigintDiv y 12) = Inr (fixedToString (bigintDiv y 12) 18)"
    by (rule weiToXdc_Inr; rule bigintDiv_range [OF _ lh assms(3,4)]) simp_all
  have 3: "weiToXdc y = Inr (fixedToString y 18)"
    using assms(3,4) by (rule weiToXdc_Inr)
  show ?thesis
    by (simp only: calculateEstimatedRewards_def assms(1,2) if_False sum.case Let_def 1 2 3)
qed




lemma toFixed2_eval:
  assumes "\<bar>x\<bar> < 10 ^ 21" and "of_nat k \<le> \<bar>x\<bar> * 100 + 1 / 2" and "\<bar>x\<bar> * 100 + 1 / 2 < of_nat k + 1"
  shows "toFixed2 (Fin x) =
           Text ((if x < 0 then ''-'' else []) @ showNat (k div 100) @ ''.'' @ pad2 (k mod 100))"
proof -
  have "\<lfloor>\<bar>x\<bar> * 100 + 1 / 2\<rfloor> = int k"
    using assms(2,3) by (intro floor_unique) simp_all
  then have "nat \<lfloor>\<bar>x\<bar> * 100 + 1 / 2\<rfloor> = k" by simp
  with assms(1) show ?thesis by (simp add: Let_def del: showNat.simps)
qed

text \<open>
  The roundings of three runs: 10,000 XDC and 10,000,000 XDC staked out of 1,000,000,000 XDC
  with the default number of blocks, and 1 XDC out of 1 XDC with \<open>blocksPerYear = -1\<close>.
\<close>

lemma scenarioB_1: "Number 10000000000000000000000 = Fin 10000000000000000000000"
proof -
  have "roundDouble 10000000000000000000000 = Fin (of_int 4768371582031250 * 2 powi (73 - 52))"
    by (rule roundDouble_eval)
      (simp_all add: power_int_numeral power_int_numeral_neg_numeral)
  then show ?thesis
    by (simp add: Number_def power_int_numeral power_int_numeral_neg_numeral)
qed

lemma scenarioB_2: "Number 1000000000000000000000000000 = Fin 1000000000000000013287555072"
proof -
  have "roundDouble 1000000000000000000000000000 = Fin (of_int 7275957614183426 * 2 powi (89 - 52))"
    by (rule roundDouble_eval)
      (simp_all add: power_int_numeral power_int_numeral_neg_numeral)
  then show ?thesis
    by (simp add: Number_def power_int_numeral power_int_numeral_neg_numeral)
qed

lemma scenarioB_3:
  "js_div (Fin 10000000000000000000000) (Fin 1000000000000000013287555072)
     = Fin (368934881474191 / 36893488147419103232)"
proof -
  have "roundDouble (2384185791015625 / 238418579101562503168)
          = Fin (of_int 5902958103587056 * 2 powi (- 17 - 52))"
    by (rule roundDouble_eval)
      (simp_all add: power_int_numeral power_int_numeral_neg_numeral)
  then show ?thesis
    by (simp add: Number_def power_int_numeral power_int_numeral_neg_numeral)
qed

lemma scenarioB_4: "Number 3942000000000000000000000 = Fin 3942000000000000205520896"
proof -
  have "roundDouble 3942000000000000000000000 = Fin (of_int 7342547178268433 * 2 powi (81 - 52))"
    by (rule roundDouble_eval)
      (simp_all add: power_int_numeral power_int_numeral_neg_numeral)
  then show ?thesis
    by (simp add: Number_def power_int_numeral power_int_numeral_neg_numeral)
qed

lemma scenarioB_5:
  "js_mul (Fin 3942000000000000205520896) (Fin (368934881474191 / 36893488147419103232))
     = Fin 39420000000000000000"
proof -
  have "roundDouble (2708921772933119903921759512703 / 68719476736)
          = Fin (of_int 4812011718750000 * 2 powi (65 - 52))"
    by (rule roundDouble_eval)
      (simp_all add: power_int_numeral power_int_numeral_neg_numeral)
  then show ?thesis
    by (simp add: Number_def power_int_numeral power_int_numeral_neg_numeral)
qed

lemma scenarioB_6: "Number 39420000000000000000 = Fin 39420000000000000000"
proof -
  have "roundDouble 39420000000000000000 = Fin (of_int 4812011718750000 * 2 powi (65 - 52))"
    by (rule roundDouble_eval)
      (simp_all add: power_int_numeral power_int_numeral_neg_numeral)
  then show ?thesis
    by (simp add: Number_def power_int_numeral power_int_numeral_neg_numeral)
qed

lemma scenarioB_7:
  "js_div (Fin 39420000000000000000) (Fin 10000000000000000000000)
     = Fin (4544816571160191 / 1152921504606846976)"
proof -
  have "roundDouble (1971 / 500000) = Fin (of_int 4544816571160191 * 2 powi (- 8 - 52))"
    by (rule roundDouble_eval)
      (simp_all add: power_int_numeral power_int_numeral_neg_numeral)
  then show ?thesis
    by (simp add: Number_def power_int_numeral power_int_numeral_neg_numeral)
qed

lemma scenarioB_8:
  "js_mul (Fin (4544816571160191 / 1152921504606846976)) (Fin 100)
     = Fin (3550637946218899 / 9007199254740992)"
proof -
  have "roundDouble (113620414279004775 / 288230376151711744)
          = Fin (of_int 7101275892437798 * 2 powi (- 2 - 52))"
    by (rule roundDouble_eval)
      (simp_all add: power_int_numeral power_int_numeral_neg_numeral)
  then show ?thesis
    by (simp add: Number_def power_int_numeral power_int_numeral_neg_numeral)
qed

lemma scenarioB_yearly:
  "userYearlyRewards 10000000000000000000000 1000000000000000000000000000 defaultBlocksPerYear = Inr 39420000000000000000"
proof -
  have 1: "js_div (Number 10000000000000000000000) (Number 1000000000000000000000000000)
             = Fin (368934881474191 / 36893488147419103232)"
    by (simp only: scenarioB_1 scenarioB_2 scenarioB_3)
  have 2: "BigInt defaultBlocksPerYear = Inr 15768000"
    using BigInt_int [of "15768000"] by (simp add: defaultBlocksPerYear_def)
  have 3: "Number (15768000 * 250000000000000000) = Fin 3942000000000000205520896"
    by (simp add: scenarioB_4)
  from userYearly_steps [OF 1 2 3 scenarioB_5] show ?thesis by simp
qed

lemma scenarioB_rewards:
  "calculateEstimatedRewards 10000000000000000000000 1000000000000000000000000000 defaultBlocksPerYear =
           Inr \<lparr>daily = ''0.108'', monthly = ''3.285'',
                yearly = ''39.42'', apy = Text ''0.39''\<rparr>"
proof -
  have 1: "js_mul (js_div (Number 39420000000000000000) (Number 10000000000000000000000)) (Fin 100)
             = Fin (3550637946218899 / 9007199254740992)"
    by (simp only: scenarioB_1 scenarioB_6 scenarioB_7 scenarioB_8)
  have 2: "toFixed2 (Fin (3550637946218899 / 9007199254740992)) = Text ''0.39''"
    using toFixed2_eval [of "3550637946218899 / 9007199254740992" 39] by (simp add: eval_text pad2_def)
  have 3: "fixedToString (bigintDiv 39420000000000000000 365) 18 = ''0.108''"
    by (simp add: bigintDiv_def fixedToString_def eval_text)
  have 4: "fixedToString (bigintDiv 39420000000000000000 12) 18 = ''3.285''"
    by (simp add: bigintDiv_def fixedToString_def eval_text)
  have 5: "fixedToString 39420000000000000000 18 = ''39.42''"
    by (simp add: fixedToString_def eval_text)
  have "calculateEstimatedRewards 10000000000000000000000 1000000000000000000000000000 defaultBlocksPerYear =
          Inr \<lparr>daily = fixedToString (bigintDiv 39420000000000000000 365) 18,
               monthly = fixedToString (bigintDiv 39420000000000000000 12) 18,
               yearly = fixedToString 39420000000000000000 18,
               apy = toFixed2 (js_mul (js_div (Number 39420000000000000000) (Number 10000000000000000000000)) (Fin 100))\<rparr>"
    by (rule rewards_of_yearly [OF _ scenarioB_yearly]) simp_all
  then show ?thesis by (simp only: 1 2 3 4 5)
qed

lemma masternodeStake_1: "Number 10000000000000000000000000 = Fin 10000000000000000905969664"
proof -
  have "roundDouble 10000000000000000000000000 = Fin (of_int 4656612873077393 * 2 powi (83 - 52))"
    by (rule roundDouble_eval)
      (simp_all add: power_int_numeral power_int_numeral_neg_numeral)
  then show ?thesis
    by (simp add: Number_def power_int_numeral power_int_numeral_neg_numeral)
qed

lemma masternodeStake_2:
  "js_div (Fin 10000000000000000905969664) (Fin 1000000000000000013287555072)
     = Fin (5764607523034235 / 576460752303423488)"
proof -
  have "roundDouble (4656612873077393 / 465661287307739264)
          = Fin (of_int 5764607523034235 * 2 powi (- 7 - 52))"
    by (rule roundDouble_eval)
      (simp_all add: power_int_numeral power_int_numeral_neg_numeral)
  then show ?thesis
    by (simp add: Number_def power_int_numeral power_int_numeral_neg_numeral)
qed

lemma masternodeStake_3:
  "js_mul (Fin 3942000000000000205520896) (Fin (5764607523034235 / 576460752303423488))
     = Fin 39420000000000001048576"
proof -
  have "roundDouble (42326902702080003087869478803755 / 1073741824)
          = Fin (of_int 4699230194091797 * 2 powi (75 - 52))"
    by (rule roundDouble_eval)
      (simp_all add: power_int_numeral power_int_numeral_neg_numeral)
  then show ?thesis
    by (simp add: Number_def power_int_numeral power_int_numeral_neg_numeral)
qed

lemma masternodeStake_4: "Number 39420000000000001048576 = Fin 39420000000000001048576"
proof -
  have "roundDouble 39420000000000001048576 = Fin (of_int 4699230194091797 * 2 powi (75 - 52))"
    by (rule roundDouble_eval)
      (simp_all add: power_int_numeral power_int_numeral_neg_numeral)
  then show ?thesis
    by (simp add: Number_def power_int_numeral power_int_numeral_neg_numeral)
qed

lemma masternodeStake_5:
  "js_div (Fin 39420000000000001048576) (Fin 10000000000000000905969664)
     = Fin (2272408285580095 / 576460752303423488)"
proof -
  have "roundDouble (4699230194091797 / 1192092895507812608)
          = Fin (of_int 4544816571160190 * 2 powi (- 8 - 52))"
    by (rule roundDouble_eval)
      (simp_all add: power_int_numeral power_int_numeral_neg_numeral)
  then show ?thesis
    by (simp add: Number_def power_int_numeral power_int_numeral_neg_numeral)
qed

lemma masternodeStake_6:
  "js_mul (Fin (2272408285580095 / 576460752303423488)) (Fin 100)
     = Fin (7101275892437797 / 18014398509481984)"
proof -
  have "roundDouble (56810207139502375 / 144115188075855872)
          = Fin (of_int 7101275892437797 * 2 powi (- 2 - 52))"
    by (rule roundDouble_eval)
      (simp_all add: power_int_numeral power_int_numeral_neg_numeral)
  then show ?thesis
    by (simp add: Number_def power_int_numeral power_int_numeral_neg_numeral)
qed

lemma masternodeStake_yearly:
  "userYearlyRewards 10000000000000000000000000 1000000000000000000000000000 defaultBlocksPerYear = Inr 39420000000000001048576"
proof -
  have 1: "js_div (Number 10000000000000000000000000) (Number 1000000000000000000000000000)
             = Fin (5764607523034235 / 576460752303423488)"
    by (simp only: masternodeStake_1 masternodeStake_2 scenarioB_2)
  have 2: "BigInt defaultBlocksPerYear = Inr 15768000"
    using BigInt_int [of "15768000"] by (simp add: defaultBlocksPerYear_def)
  have 3: "Number (15768000 * 250000000000000000) = Fin 3942000000000000205520896"
    by (simp add: scenarioB_4)
  from userYearly_steps [OF 1 2 3 masternodeStake_3] show ?thesis by simp
qed

lemma masternodeStake_rewards:
  "calculateEstimatedRewards 10000000000000000000000000 1000000000000000000000000000 defaultBlocksPerYear =
           Inr \<lparr>daily = ''108.000000000000002872'', monthly = ''3285.000000000000087381'',
                yearly = ''39420.000000000001048576'', apy = Text ''0.39''\<rparr>"
proof -
  have 1: "js_mul (js_div (Number 39420000000000001048576) (Number 10000000000000000000000000)) (Fin 100)
             = Fin (7101275892437797 / 18014398509481984)"
    by (simp only: masternodeStake_1 masternodeStake_4 masternodeStake_5 masternodeStake_6)
  have 2: "toFixed2 (Fin (7101275892437797 / 18014398509481984)) = Text ''0.39''"
    using toFixed2_eval [of "7101275892437797 / 18014398509481984" 39] by (simp add: eval_text pad2_def)
  have 3: "fixedToString (bigintDiv 39420000000000001048576 365) 18 = ''108.000000000000002872''"
    by (simp add: bigintDiv_def fixedToString_def eval_text)
  have 4: "fixedToString (bigintDiv 39420000000000001048576 12) 18 = ''3285.000000000000087381''"
    by (simp add: bigintDiv_def fixedToString_def eval_text)
  have 5: "fixedToString 39420000000000001048576 18 = ''39420.000000000001048576''"
    by (simp add: fixedToString_def eval_text)
  have "calculateEstimatedRewards 10000000000000000000000000 1000000000000000000000000000 defaultBlocksPerYear =
          Inr \<lparr>daily = fixedToString (bigintDiv 39420000000000001048576 365) 18,
               monthly = fixedToString (bigintDiv 39420000000000001048576 12) 18,
               yearly = fixedToString 39420000000000001048576 18,
               apy = toFixed2 (js_mul (js_div (Number 39420000000000001048576) (Number 10000000000000000000000000)) (Fin 100))\<rparr>"
    by (rule rewards_of_yearly [OF _ masternodeStake_yearly]) simp_all
  then show ?thesis by (simp only: 1 2 3 4 5)
qed









text \<open>The amounts of the scenarios in wei, as the node operation converts them.\<close>

lemma scenario_wei:
  "xdcToWei ''10000'' = Inr 10000000000000000000000"
  "xdcToWei ''10000000'' = Inr 10000000000000000000000000"
  "xdcToWei ''1000000000'' = Inr 1000000000000000000000000000"
  by (simp_all add: xdcToWei_def parseEther_def parseUnits_def startsWith_def isDigit_def
      readNat_def digitValue_def replicate_numeral)

text \<open>The yearly figure against the exact quotient.\<close>

lemma userYearly_error:
  assumes s: "0 < s" "s < 2 ^ 256" and t: "0 < t" "t < 2 ^ 256"
    and n: "0 < n" "n \<le> 2 ^ 53"
  shows "\<exists>y. userYearlyRewards s t (Fin (of_int n)) = Inr y \<and> 0 \<le> y \<and> y < 2 ^ 511
           \<and> of_int (n * 250000000000000000 * s) / of_int t * (1 - 1 / 2 ^ 50) - 1 < (of_int y :: rat)
           \<and> (of_int y :: rat) \<le> of_int (n * 250000000000000000 * s) / of_int t * (1 + 1 / 2 ^ 50)"
proof -
  define E :: rat where "E = of_int (n * 250000000000000000) * (of_int s / of_int t)"
  have E: "of_int (n * 250000000000000000 * s) / of_int t = E" by (simp add: E_def)
  have E0: "0 \<le> E" using s t n by (simp add: E_def)
  from userYearly_value [OF s t n] obtain z where
    z: "userYearlyRewards s t (Fin (of_int n)) = Inr \<lfloor>z\<rfloor>"
       "2 powi (- 256) \<le> z" "z \<le> 2 powi 367"
       "E * ((1 - unitRoundoff) ^ 4 / (1 + unitRoundoff)) \<le> z"
       "z \<le> E * ((1 + unitRoundoff) ^ 4 / (1 - unitRoundoff))"
    unfolding E_def by (elim exE conjE)
  have z0: "0 \<le> z" using z(2) two_powi_pos [of "- 256"] by linarith
  have "E * (1 - 1 / 2 ^ 50) \<le> E * ((1 - unitRoundoff) ^ 4 / (1 + unitRoundoff))"
    using roundoff_factor(1) E0 by (rule mult_left_mono)
  with z(4) have lo: "E * (1 - 1 / 2 ^ 50) \<le> z" by linarith
  have "E * ((1 + unitRoundoff) ^ 4 / (1 - unitRoundoff)) \<le> E * (1 + 1 / 2 ^ 50)"
    using roundoff_factor(2) E0 by (rule mult_left_mono)
  with z(5) have hi: "z \<le> E * (1 + 1 / 2 ^ 50)" by linarith
  have f: "of_int \<lfloor>z\<rfloor> \<le> z" "z < of_int \<lfloor>z\<rfloor> + 1" by linarith+
  have y0: "0 \<le> \<lfloor>z\<rfloor>" using z0 by simp
  have "(of_int \<lfloor>z\<rfloor> :: rat) \<le> 2 powi 367" using f(1) z(3) by linarith
  also have "\<dots> = of_int (2 ^ 367)" by (simp add: power_int_numeral)
  finally have "\<lfloor>z\<rfloor> \<le> 2 ^ 367" by (simp only: of_int_le_iff)
  also have "\<dots> < (2::int) ^ 511" by simp
  finally have yh: "\<lfloor>z\<rfloor> < 2 ^ 511" .
  have 1: "E * (1 - 1 / 2 ^ 50) - 1 < of_int \<lfloor>z\<rfloor>" using lo f(2) by linarith
  have 2: "of_int \<lfloor>z\<rfloor> \<le> E * (1 + 1 / 2 ^ 50)" using hi f(1) by linarith
  from z(1) y0 yh 1 2 show ?thesis unfolding E by (intro exI [of _ "\<lfloor>z\<rfloor>"] conjI)
qed



section \<open>The claims on the address codec\<close>

text \<open>
  Claim C4. For every valid 40-hex-character payload \<open>p\<close>, \<open>toXdcAddress p\<close> (format A)
  and \<open>toEthAddress\<close> of it (format B) are the same address: the codec's equality
  \<open>addressesEqual\<close> holds between them, the payload read from either is the lowercased
  \<open>p\<close>, and converting the format-B text back gives the format-A text again. (As texts
  the two differ in the tag, \<open>0x\<close> against \<open>xdc\<close>; the equality of the claim is the one
  between addresses.)
\<close>

theorem address_round_trip:
  assumes "isPayload p"
  shows "\<exists>a b. toXdcAddress p = Inr a \<and> toEthAddress a = Inr b
           \<and> addressesEqual b a
           \<and> a = ''xdc'' @ toLowerCase p \<and> b = ''0x'' @ toLowerCase p
           \<and> payloadOf a = toLowerCase p \<and> payloadOf b = toLowerCase p
           \<and> toXdcAddress b = Inr a"
proof -
  let ?a = "''xdc'' @ toLowerCase p" and ?b = "''0x'' @ toLowerCase p"
  from assms have len: "length p = 40" by (simp add: isPayload_def)
  have knownP: "isKnownForm p" and knownA: "isKnownForm ?a" and knownB: "isKnownForm ?b"
    using assms payload_tagged [OF assms] by (simp_all add: isKnownForm_def)
  have pa: "payloadOf ?a = toLowerCase p" and pb: "payloadOf ?b = toLowerCase p"
    by (simp_all add: payloadOf_def len)
  have 1: "toXdcAddress p = Inr ?a"
    using toXdcAddress_known [OF knownP] payload_lower(1) [OF assms] by simp
  have 2: "toEthAddress ?a = Inr ?b"
    using toEthAddress_known [OF knownA] pa by simp
  have 3: "addressesEqual ?b ?a"
    using addressesEqual_known [OF knownB knownA] pa pb by simp
  have 4: "toXdcAddress ?b = Inr ?a"
    using toXdcAddress_known [OF knownB] pb by simp
  from 1 2 3 4 pa pb show ?thesis by blast
qed

theorem address_round_trip_witness:
  "isPayload ''1234567890abcdef1234567890ABCDEF12345678''
   \<and> (\<exists>a b. toXdcAddress ''1234567890abcdef1234567890ABCDEF12345678'' = Inr a
          \<and> toEthAddress a = Inr b \<and> addressesEqual b a
          \<and> a = ''xdc1234567890abcdef1234567890abcdef12345678''
          \<and> b = ''0x1234567890abcdef1234567890abcdef12345678''
          \<and> toXdcAddress b = Inr a)"
proof -
  have p: "isPayload ''1234567890abcdef1234567890ABCDEF12345678''"
    by (simp add: isPayload_def isHexDigit_def)
  have low: "toLowerCase ''1234567890abcdef1234567890ABCDEF12345678''
             = ''1234567890abcdef1234567890abcdef12345678''"
    by (simp add: toLowerCase_def toLowerCaseChar_def isUpperCaseChar_def)
  from address_round_trip [OF p] p show ?thesis
    unfolding low by auto
qed

text \<open>
  Claim C7, as stated: the codec accepts exactly the inputs in format A, in format B or
  a bare 40-hex payload. The code accepts more: \<open>xdc123\<close> is none of the three forms and
  both conversions return a result for it.
\<close>

theorem codec_accepts_malformed_counterexample:
  "\<not> isKnownForm ''xdc123''
   \<and> toXdcAddress ''xdc123'' = Inr ''xdc123''
   \<and> toEthAddress ''xdc123'' = Inr ''0x123''"
  by (simp add: isKnownForm_def isFormatA_def isFormatB_def isPayload_def
      toXdcAddress_def toEthAddress_def startsWith_def
      toLowerCase_def toLowerCaseChar_def isUpperCaseChar_def)

text \<open>
  Claim C7, amended. Every input in format A, in format B or a bare 40-hex payload is
  accepted and converted to the tag and the lowercased payload. The codec rejects exactly
  the empty text and the texts that, lowercased, start with neither tag and are not 40
  characters long: what follows a tag, and which characters a 40-character text holds,
  is not checked. A rejection is a plain \<open>Error\<close> thrown to the caller, with the message
  \<open>Address is required\<close> or \<open>Invalid address format: \<close> and the input.
\<close>

theorem codec_acceptance:
  "(isKnownForm s \<longrightarrow>
      toXdcAddress s = Inr (''xdc'' @ payloadOf s) \<and> toEthAddress s = Inr (''0x'' @ payloadOf s))
   \<and> (isl (toXdcAddress s) \<longleftrightarrow>
         s = [] \<or> (\<not> startsWith ''xdc'' (toLowerCase s) \<and> \<not> startsWith ''0x'' (toLowerCase s)
                    \<and> length s \<noteq> 40))
   \<and> (isl (toEthAddress s) \<longleftrightarrow> isl (toXdcAddress s))
   \<and> (\<forall>e. toXdcAddress s = Inl e \<or> toEthAddress s = Inl e \<longrightarrow>
         e = Error ''Address is required'' \<or> e = Error (''Invalid address format: '' @ s))"
  using toXdcAddress_known [of s] toEthAddress_known [of s]
    toXdcAddress_Inl_iff [of s] toEthAddress_Inl_iff [of s]
    toXdcAddress_error [of s] toEthAddress_error [of s]
  by blast

theorem codec_acceptance_witness:
  "isKnownForm ''0X1234567890ABCDEF1234567890ABCDEF12345678''
   \<and> toXdcAddress ''0X1234567890ABCDEF1234567890ABCDEF12345678''
       = Inr ''xdc1234567890abcdef1234567890abcdef12345678''
   \<and> toEthAddress ''0X1234567890ABCDEF1234567890ABCDEF12345678''
       = Inr ''0x1234567890abcdef1234567890abcdef12345678''
   \<and> toXdcAddress ''invalid'' = Inl (Error ''Invalid address format: invalid'')
   \<and> isl (toEthAddress ''invalid'')"
proof -
  let ?s = "''0X1234567890ABCDEF1234567890ABCDEF12345678''"
  have k: "isKnownForm ?s"
    by (simp add: isKnownForm_def isFormatB_def isPayload_def isHexDigit_def
        toLowerCase_def toLowerCaseChar_def isUpperCaseChar_def)
  have pay: "payloadOf ?s = ''1234567890abcdef1234567890abcdef12345678''"
    by (simp add: payloadOf_def toLowerCase_def toLowerCaseChar_def isUpperCaseChar_def)
  have inv: "toXdcAddress ''invalid'' = Inl (Error ''Invalid address format: invalid'')"
    by (simp add: toXdcAddress_def startsWith_def
        toLowerCase_def toLowerCaseChar_def isUpperCaseChar_def)
  from codec_acceptance [of ?s] k pay have
    "toXdcAddress ?s = Inr ''xdc1234567890abcdef1234567890abcdef12345678''"
    "toEthAddress ?s = Inr ''0x1234567890abcdef1234567890abcdef12345678''"
    by simp_all
  moreover from codec_acceptance [of "''invalid''"] inv
  have "isl (toEthAddress ''invalid'')" by simp
  ultimately show ?thesis using k inv by simp
qed

text \<open>
  Claim C10, as stated: \<open>addressesEqual\<close> is false whenever an operand is not
  translatable to a known address form. The code compares whatever \<open>toEthAddress\<close>
  returns, and \<open>toEthAddress\<close> accepts any tagged text: \<open>xdc123\<close> and \<open>0X123\<close> are in
  none of the three forms, both convert to \<open>0x123\<close>, and the test answers true.
\<close>

theorem addressesEqual_malformed_counterexample:
  "\<not> isKnownForm ''xdc123'' \<and> \<not> isKnownForm ''0X123''
   \<and> addressesEqual ''xdc123'' ''0X123''"
  by (simp add: isKnownForm_def isFormatA_def isFormatB_def isPayload_def
      addressesEqual_def toEthAddress_def startsWith_def
      toLowerCase_def toLowerCaseChar_def isUpperCaseChar_def)

text \<open>
  Claim C10, amended. \<open>addressesEqual\<close> is a total function to a truth value (no throw
  leaves it); it is false when an operand is empty or when \<open>toEthAddress\<close> rejects an
  operand; for two operands in format A, format B or bare-payload form it is true
  exactly when their lowercased 40-hex payloads are the same; and in general it is true
  exactly when \<open>toEthAddress\<close> accepts both operands and returns the same text for both.
\<close>

theorem addressesEqual_total:
  "(a = [] \<or> b = [] \<longrightarrow> \<not> addressesEqual a b)
   \<and> (isl (toEthAddress a) \<or> isl (toEthAddress b) \<longrightarrow> \<not> addressesEqual a b)
   \<and> (isKnownForm a \<and> isKnownForm b \<longrightarrow>
         (addressesEqual a b \<longleftrightarrow> payloadOf a = payloadOf b))
   \<and> (addressesEqual a b \<longleftrightarrow>
         (\<exists>ea eb. toEthAddress a = Inr ea \<and> toEthAddress b = Inr eb \<and> ea = eb))"
proof -
  have 1: "\<not> addressesEqual a b" if "a = [] \<or> b = []"
    using that by (auto simp add: addressesEqual_def)
  have 2: "\<not> addressesEqual a b" if "isl (toEthAddress a) \<or> isl (toEthAddress b)"
    using that by (auto simp add: addressesEqual_def isl_def split: sum.splits)
  have 3: "addressesEqual a b \<longleftrightarrow> payloadOf a = payloadOf b"
    if "isKnownForm a \<and> isKnownForm b"
    using that addressesEqual_known [of a b] by simp
  from 1 2 3 addressesEqual_iff [of a b] show ?thesis by (intro conjI impI)
qed

theorem addressesEqual_total_witness:
  "isKnownForm ''XDC1234567890abcdef1234567890ABCDEF12345678''
   \<and> isKnownForm ''0x1234567890ABCDEF1234567890abcdef12345678''
   \<and> addressesEqual ''XDC1234567890abcdef1234567890ABCDEF12345678''
        ''0x1234567890ABCDEF1234567890abcdef12345678''
   \<and> isl (toEthAddress ''invalid'')
   \<and> \<not> addressesEqual ''invalid'' ''0x1234567890ABCDEF1234567890abcdef12345678''
   \<and> \<not> addressesEqual [] ''0x1234567890ABCDEF1234567890abcdef12345678''"
proof -
  let ?a = "''XDC1234567890abcdef1234567890ABCDEF12345678''"
  let ?b = "''0x1234567890ABCDEF1234567890abcdef12345678''"
  have ka: "isKnownForm ?a"
    by (simp add: isKnownForm_def isFormatA_def isPayload_def isHexDigit_def
        toLowerCase_def toLowerCaseChar_def isUpperCaseChar_def)
  have kb: "isKnownForm ?b"
    by (simp add: isKnownForm_def isFormatB_def isPayload_def isHexDigit_def
        toLowerCase_def toLowerCaseChar_def isUpperCaseChar_def)
  have pay: "payloadOf ?a = payloadOf ?b"
    by (simp add: payloadOf_def toLowerCase_def toLowerCaseChar_def isUpperCaseChar_def)
  have inv: "isl (toEthAddress ''invalid'')"
    by (simp add: toEthAddress_def startsWith_def
        toLowerCase_def toLowerCaseChar_def isUpperCaseChar_def)
  from addressesEqual_total [of ?a ?b] ka kb pay have 1: "addressesEqual ?a ?b" by blast
  from addressesEqual_total [of "''invalid''" ?b] inv
  have 2: "\<not> addressesEqual ''invalid'' ?b" by blast
  from addressesEqual_total [of "[]" ?b] have 3: "\<not> addressesEqual [] ?b" by blast
  from ka kb 1 inv 2 3 show ?thesis by blast
qed

section \<open>The claims on the masternode status\<close>

text \<open>
  Claim C5. The status of a masternode is a function of the pair (is a registered
  candidate, is a validator), so exactly one status applies to each pair: not registered
  gives \<open>resigned\<close> whatever the second flag, registered and validator gives \<open>active\<close>,
  registered and no validator gives \<open>proposed\<close>; and the status that \<open>getMasternodeInfo\<close>
  reports is this function of the contract's \<open>isCandidate\<close> answer and the reported
  \<open>isValidator\<close> flag.
\<close>

theorem masternode_status_mapping:
  "masternodeStatus False v = Resigned
   \<and> masternodeStatus True True = Active
   \<and> masternodeStatus True False = Proposed
   \<and> (getMasternodeInfo c a = Inr info \<longrightarrow>
        (\<exists>eth. toEthAddress a = Inr eth
           \<and> status info = masternodeStatus (contractIsCandidate c eth) (isValidator info)))"
proof -
  have "\<exists>eth. toEthAddress a = Inr eth
           \<and> status info = masternodeStatus (contractIsCandidate c eth) (isValidator info)"
    if "getMasternodeInfo c a = Inr info"
    using that by (rule getMasternodeInfo_Inr) simp
  then show ?thesis by (simp add: masternodeStatus_def)
qed

theorem masternode_status_mapping_witness:
  "masternodeStatus False True = Resigned
   \<and> masternodeStatus True True = Active
   \<and> masternodeStatus True False = Proposed
   \<and> getMasternodeInfo sampleContract sampleStandby =
        Inr \<lparr>address = ''xdcabcdefabcdef0123456789abcdefabcdef012345'',
          owner = ''xdc00000000000000000000000000000000000000aa'',
          stake = ''90000000000000000000000000'', stakeXdc = ''90000000.0'',
          voterCount = 0, isValidator = False, status = Proposed\<rparr>
   \<and> (\<exists>eth. toEthAddress sampleStandby = Inr eth
          \<and> Proposed = masternodeStatus (contractIsCandidate sampleContract eth) False)"
proof -
  let ?M = "\<lparr>address = ''xdcabcdefabcdef0123456789abcdefabcdef012345'',
          owner = ''xdc00000000000000000000000000000000000000aa'',
          stake = ''90000000000000000000000000'', stakeXdc = ''90000000.0'',
          voterCount = 0, isValidator = False, status = Proposed\<rparr>"
  note t = masternode_status_mapping [of True sampleContract sampleStandby ?M]
  from t have 1: "masternodeStatus False True = Resigned" "masternodeStatus True True = Active"
    "masternodeStatus True False = Proposed"
    by (simp_all only:)
  from t [THEN conjunct2, THEN conjunct2, THEN conjunct2, THEN mp, OF sample_info_standby]
  have 2: "\<exists>eth. toEthAddress sampleStandby = Inr eth
          \<and> Proposed = masternodeStatus (contractIsCandidate sampleContract eth) False"
    by simp
  from 1 2 sample_info_standby show ?thesis by (intro conjI)
qed

section \<open>The claims on the validator set\<close>

text \<open>
  Claim C3. The validator set that \<open>getEpochInfo\<close> reports is the first 108 entries of
  the candidate list, in order: its length is the smaller of 108 and the length \<open>L\<close> of
  the contract's list. The \<open>isValidator\<close> flag of \<open>getMasternodeInfo\<close> is membership of
  the queried address, in its lowercased \<open>0x\<close> form, among the first \<open>min L 108\<close>
  lowercased candidates; the stake is not consulted, so an address that occurs only from
  rank 109 on is no validator. Two queries with addresses that \<open>addressesEqual\<close> holds
  of (any case, either format) get the same flag.
\<close>

theorem validator_set_is_prefix:
  "(getEpochInfo c cur en = Inr ei \<longrightarrow>
      (\<exists>cands. getCandidates c = Inr cands \<and> validatorSet ei = take 108 cands
         \<and> length (validatorSet ei) = min (length (contractGetCandidates c)) 108
         \<and> (\<forall>i < length (validatorSet ei). validatorSet ei ! i = cands ! i)))
   \<and> (getMasternodeInfo c a = Inr mi \<longrightarrow>
        (\<exists>eth. toEthAddress a = Inr eth
           \<and> (isValidator mi \<longleftrightarrow>
                (\<exists>i < min (length (contractGetCandidates c)) 108.
                    toLowerCase (contractGetCandidates c ! i) = eth))))
   \<and> (getMasternodeInfo c a = Inr mi \<and> getMasternodeInfo c b = Inr mj \<and> addressesEqual a b
        \<longrightarrow> isValidator mi = isValidator mj)"
proof (intro conjI impI)
  assume "getEpochInfo c cur en = Inr ei"
  then obtain cands where 1: "getCandidates c = Inr cands" and 2: "validatorSet ei = take 108 cands"
    by (rule getEpochInfo_Inr)
  from 1 have "length cands = length (contractGetCandidates c)"
    unfolding getCandidates_def by (rule mapE_length)
  with 1 2 show "\<exists>cands. getCandidates c = Inr cands \<and> validatorSet ei = take 108 cands
         \<and> length (validatorSet ei) = min (length (contractGetCandidates c)) 108
         \<and> (\<forall>i < length (validatorSet ei). validatorSet ei ! i = cands ! i)"
    by auto
next
  assume "getMasternodeInfo c a = Inr mi"
  then obtain eth where 1: "toEthAddress a = Inr eth"
    and 2: "isValidator mi = validatorMember (contractGetCandidates c) eth"
    by (rule getMasternodeInfo_Inr) simp
  from 1 have "toLowerCase eth = eth" by (rule toEthAddress_lower)
  with 1 2 show "\<exists>eth. toEthAddress a = Inr eth
           \<and> (isValidator mi \<longleftrightarrow>
                (\<exists>i < min (length (contractGetCandidates c)) 108.
                    toLowerCase (contractGetCandidates c ! i) = eth))"
    by (simp add: validatorMember_iff)
next
  assume h: "getMasternodeInfo c a = Inr mi \<and> getMasternodeInfo c b = Inr mj \<and> addressesEqual a b"
  from h obtain ea where a: "toEthAddress a = Inr ea"
    "isValidator mi = validatorMember (contractGetCandidates c) ea"
    by (elim conjE getMasternodeInfo_Inr) simp
  from h obtain eb where b: "toEthAddress b = Inr eb"
    "isValidator mj = validatorMember (contractGetCandidates c) eb"
    by (elim conjE getMasternodeInfo_Inr) simp
  from h a(1) b(1) have "toLowerCase ea = toLowerCase eb"
    by (simp add: addressesEqual_def split: if_splits)
  with a(2) b(2) show "isValidator mi = isValidator mj"
    by (simp add: validatorMember_def)
qed

theorem validator_set_is_prefix_witness:
  "getEpochInfo sampleContract (Fin 1850) (Some (Fin 2)) =
     Inr \<lparr>number = Fin 2, startBlock = Fin 1800, endBlock = Fin 2699,
          validatorSet = replicate 108 ''xdc1234567890abcdef1234567890abcdef12345678'',
          rewards = ''12750000000000000000'', rewardsXdc = ''12.75''\<rparr>
   \<and> length (contractGetCandidates sampleContract) = 109
   \<and> getMasternodeInfo sampleContract sampleStandby =
     Inr \<lparr>address = ''xdcabcdefabcdef0123456789abcdefabcdef012345'',
          owner = ''xdc00000000000000000000000000000000000000aa'',
          stake = ''90000000000000000000000000'', stakeXdc = ''90000000.0'',
          voterCount = 0, isValidator = False, status = Proposed\<rparr>
   \<and> (\<exists>eth. toEthAddress sampleStandby = Inr eth
         \<and> \<not> (\<exists>i < min (length (contractGetCandidates sampleContract)) 108.
                 toLowerCase (contractGetCandidates sampleContract ! i) = eth))
   \<and> addressesEqual sampleValidator ''XDC1234567890ABCDEF1234567890ABCDEF12345678''
   \<and> getMasternodeInfo sampleContract sampleValidator
       = getMasternodeInfo sampleContract ''XDC1234567890ABCDEF1234567890ABCDEF12345678''"
proof -
  let ?E = "\<lparr>number = Fin 2, startBlock = Fin 1800, endBlock = Fin 2699,
          validatorSet = replicate 108 ''xdc1234567890abcdef1234567890abcdef12345678'',
          rewards = ''12750000000000000000'', rewardsXdc = ''12.75''\<rparr>"
  let ?M = "\<lparr>address = ''xdcabcdefabcdef0123456789abcdefabcdef012345'',
          owner = ''xdc00000000000000000000000000000000000000aa'',
          stake = ''90000000000000000000000000'', stakeXdc = ''90000000.0'',
          voterCount = 0, isValidator = False, status = Proposed\<rparr>"
  have len: "length (contractGetCandidates sampleContract) = 109"
    by (simp add: sampleContract_def)
  have eq: "addressesEqual sampleValidator ''XDC1234567890ABCDEF1234567890ABCDEF12345678''"
    using sample_toEth(2) sample_upper(1)
    by (simp add: addressesEqual_def sampleValidator_def)
  have same: "getMasternodeInfo sampleContract sampleValidator
       = getMasternodeInfo sampleContract ''XDC1234567890ABCDEF1234567890ABCDEF12345678''"
    using sample_info_validator_form [OF sample_toEth(2) sample_toXdc(1)]
      sample_info_validator_form [OF sample_upper] by simp
  note t = validator_set_is_prefix [of sampleContract "Fin 1850" "Some (Fin 2)" ?E
      sampleStandby ?M]
  from t [THEN conjunct2, THEN conjunct1, THEN mp, OF sample_info_standby]
  have "\<exists>eth. toEthAddress sampleStandby = Inr eth
         \<and> \<not> (\<exists>i < min (length (contractGetCandidates sampleContract)) 108.
                 toLowerCase (contractGetCandidates sampleContract ! i) = eth)"
    by simp
  with sample_epoch_2 len sample_info_standby eq same show ?thesis by (intro conjI)
qed

section \<open>The claims on the epoch calculation\<close>

text \<open>
  Claim C2, as stated: for every height \<open>h \<ge> 0\<close> the range of its epoch \<open>e\<close> is
  \<open>[900 e, 900 e + 899]\<close>, computed in integers. The code computes in binary64 numbers.
  At the height \<open>2^53 - 1\<close>, the largest integer the provider can return, the epoch is
  10007999171934 and its start is \<open>900 e = 9007199254740600\<close>, but \<open>start + 900 - 1\<close> is
  not a binary64 value and rounds to \<open>start + 900\<close>: the reported range ends at
  9007199254741500 and holds 901 heights.
\<close>

theorem last_epoch_range_counterexample:
  "getCurrentEpoch (Fin 9007199254740991) = Fin 10007999171934
   \<and> getEpochInfo sampleContract (Fin 9007199254740991) None =
       Inr \<lparr>number = Fin 10007999171934,
            startBlock = Fin 9007199254740600, endBlock = Fin 9007199254741500,
            validatorSet = replicate 108 ''xdc1234567890abcdef1234567890abcdef12345678'',
            rewards = ''98000000000000000000'', rewardsXdc = ''98.0''\<rparr>
   \<and> (10007999171934::int) * 900 = 9007199254740600
   \<and> (10007999171934::int) * 900 + 899 \<noteq> 9007199254741500"
proof -
  have "getCurrentEpoch (Fin (of_int 9007199254740991))
          = Fin (of_int (9007199254740991 div 900))"
    by (rule getCurrentEpoch_nonneg) simp_all
  then have "getCurrentEpoch (Fin 9007199254740991) = Fin 10007999171934" by simp
  with sample_last_epoch show ?thesis by simp
qed

text \<open>
  Claim C2, amended. For a block height \<open>h\<close> with \<open>0 \<le> h < 2^53\<close> (the integers a
  JavaScript number holds exactly) \<open>getCurrentEpoch\<close> returns \<open>h div 900\<close>: the floor of the
  binary64 quotient is the integer quotient. For an epoch \<open>e \<ge> 0\<close> with
  \<open>900 e + 900 \<le> 2^53\<close>, \<open>getEpochInfo\<close> reports the range \<open>[900 e, 900 e + 899]\<close>, and
  for a height with \<open>h + 900 \<le> 2^53\<close> and no epoch argument it reports the epoch
  \<open>h div 900\<close> and a range that holds \<open>h\<close>. A height lies in the range of \<open>e\<close> exactly
  when \<open>e = h div 900\<close>, so it lies in the range of one epoch only. In particular the
  epoch of 1850 is 2, with range \<open>[1800, 2699]\<close>.
\<close>

theorem epoch_of_height:
  "(0 \<le> h \<and> h < 2 ^ 53 \<longrightarrow> getCurrentEpoch (Fin (of_int h)) = Fin (of_int (h div 900)))
   \<and> (getCandidates c = Inr cands \<and> 0 \<le> h \<and> h \<le> 2 ^ 53 \<and> 0 \<le> e \<and> e * 900 + 900 \<le> 2 ^ 53 \<longrightarrow>
        (\<exists>info. getEpochInfo c (Fin (of_int h)) (Some (Fin (of_int e))) = Inr info
           \<and> number info = Fin (of_int e)
           \<and> startBlock info = Fin (of_int (e * 900))
           \<and> endBlock info = Fin (of_int (e * 900 + 899))))
   \<and> (getCandidates c = Inr cands \<and> 0 \<le> h \<and> h + 900 \<le> 2 ^ 53 \<longrightarrow>
        (\<exists>info. getEpochInfo c (Fin (of_int h)) None = Inr info
           \<and> number info = Fin (of_int (h div 900))
           \<and> startBlock info = Fin (of_int (h div 900 * 900))
           \<and> endBlock info = Fin (of_int (h div 900 * 900 + 899))
           \<and> h div 900 * 900 \<le> h \<and> h \<le> h div 900 * 900 + 899))
   \<and> (0 \<le> h \<longrightarrow> (e * 900 \<le> h \<and> h \<le> e * 900 + 899 \<longleftrightarrow> e = h div 900))"
proof (intro conjI impI)
  assume "0 \<le> h \<and> h < 2 ^ 53"
  then show "getCurrentEpoch (Fin (of_int h)) = Fin (of_int (h div 900))"
    by (intro getCurrentEpoch_nonneg) simp_all
next
  assume a: "getCandidates c = Inr cands \<and> 0 \<le> h \<and> h \<le> 2 ^ 53 \<and> 0 \<le> e \<and> e * 900 + 900 \<le> 2 ^ 53"
  then have "\<bar>e\<bar> * 900 + 900 \<le> 2 ^ 53" by simp
  with a have "getEpochInfo c (Fin (of_int h)) (Some (Fin (of_int e))) =
           Inr \<lparr>number = Fin (of_int e),
                startBlock = Fin (of_int (e * 900)),
                endBlock = Fin (of_int (e * 900 + 899)),
                validatorSet = take 108 cands,
                rewards = bigintToString
                  ((min (e * 900 + 899) h - e * 900 + 1) * 250000000000000000),
                rewardsXdc = fixedToString
                  ((min (e * 900 + 899) h - e * 900 + 1) * 250000000000000000) 18\<rparr>"
    by (intro getEpochInfo_Some_int) simp_all
  then show "\<exists>info. getEpochInfo c (Fin (of_int h)) (Some (Fin (of_int e))) = Inr info
           \<and> number info = Fin (of_int e)
           \<and> startBlock info = Fin (of_int (e * 900))
           \<and> endBlock info = Fin (of_int (e * 900 + 899))"
    by simp
next
  assume a: "getCandidates c = Inr cands \<and> 0 \<le> h \<and> h + 900 \<le> 2 ^ 53"
  define k where "k = h div 900"
  have dm: "h = k * 900 + h mod 900" by (simp add: k_def)
  have "0 \<le> h mod 900" "h mod 900 < 900" by simp_all
  with dm have k23: "k * 900 \<le> h" "h \<le> k * 900 + 899" by linarith+
  from a have "0 \<le> k" by (simp add: k_def pos_imp_zdiv_nonneg_iff)
  note k = this k23
  from a have cur: "getCurrentEpoch (Fin (of_int h)) = Fin (of_int k)"
    unfolding k_def by (intro getCurrentEpoch_nonneg) simp_all
  from a k have "\<bar>k\<bar> * 900 + 900 \<le> 2 ^ 53" by simp
  with a have "getEpochInfo c (Fin (of_int h)) (Some (Fin (of_int k))) =
           Inr \<lparr>number = Fin (of_int k),
                startBlock = Fin (of_int (k * 900)),
                endBlock = Fin (of_int (k * 900 + 899)),
                validatorSet = take 108 cands,
                rewards = bigintToString
                  ((min (k * 900 + 899) h - k * 900 + 1) * 250000000000000000),
                rewardsXdc = fixedToString
                  ((min (k * 900 + 899) h - k * 900 + 1) * 250000000000000000) 18\<rparr>"
    by (intro getEpochInfo_Some_int) simp_all
  then have "\<exists>info. getEpochInfo c (Fin (of_int h)) None = Inr info
           \<and> number info = Fin (of_int k)
           \<and> startBlock info = Fin (of_int (k * 900))
           \<and> endBlock info = Fin (of_int (k * 900 + 899))"
    by (simp add: getEpochInfo_None cur)
  with k show "\<exists>info. getEpochInfo c (Fin (of_int h)) None = Inr info
           \<and> number info = Fin (of_int (h div 900))
           \<and> startBlock info = Fin (of_int (h div 900 * 900))
           \<and> endBlock info = Fin (of_int (h div 900 * 900 + 899))
           \<and> h div 900 * 900 \<le> h \<and> h \<le> h div 900 * 900 + 899"
    unfolding k_def by simp
next
  assume "0 \<le> h"
  show "(e * 900 \<le> h \<and> h \<le> e * 900 + 899) \<longleftrightarrow> e = h div 900"
    by (rule epoch_range_unique)
qed

theorem epoch_of_height_witness:
  "getCurrentEpoch (Fin 1850) = Fin 2
   \<and> (\<exists>info. getEpochInfo sampleContract (Fin 1850) (Some (Fin 2)) = Inr info
         \<and> number info = Fin 2 \<and> startBlock info = Fin 1800 \<and> endBlock info = Fin 2699)
   \<and> (\<exists>info. getEpochInfo sampleContract (Fin 1850) None = Inr info
         \<and> number info = Fin 2 \<and> startBlock info = Fin 1800 \<and> endBlock info = Fin 2699)"
proof -
  define cands where "cands = replicate 108 ''xdc1234567890abcdef1234567890abcdef12345678''
          @ [''xdcabcdefabcdef0123456789abcdefabcdef012345'']"
  have c: "getCandidates sampleContract = Inr cands"
    unfolding cands_def by (rule sample_candidates)
  note t = epoch_of_height [of 1850 sampleContract cands 2]
  have n: "(of_int 1850 :: rat) = 1850" "(of_int 2 :: rat) = 2" "(1850::int) div 900 = 2"
    "(of_int (2 * 900) :: rat) = 1800" "(of_int (2 * 900 + 899) :: rat) = 2699"
    by simp_all
  have p1: "(0::int) \<le> 1850 \<and> (1850::int) < 2 ^ 53" by simp
  have p2: "getCandidates sampleContract = Inr cands \<and> (0::int) \<le> 1850 \<and> (1850::int) \<le> 2 ^ 53
              \<and> (0::int) \<le> 2 \<and> (2::int) * 900 + 900 \<le> 2 ^ 53"
    by (intro conjI, rule c) simp_all
  have p3: "getCandidates sampleContract = Inr cands \<and> (0::int) \<le> 1850
              \<and> (1850::int) + 900 \<le> 2 ^ 53"
    by (intro conjI, rule c) simp_all
  from t [THEN conjunct1, THEN mp, OF p1]
  have 1: "getCurrentEpoch (Fin 1850) = Fin 2" unfolding n .
  from t [THEN conjunct2, THEN conjunct1, THEN mp, OF p2]
  have 2: "\<exists>info. getEpochInfo sampleContract (Fin 1850) (Some (Fin 2)) = Inr info
         \<and> number info = Fin 2 \<and> startBlock info = Fin 1800 \<and> endBlock info = Fin 2699"
    unfolding n .
  from t [THEN conjunct2, THEN conjunct2, THEN conjunct1, THEN mp, OF p3]
  obtain info where "getEpochInfo sampleContract (Fin 1850) None = Inr info
         \<and> number info = Fin 2 \<and> startBlock info = Fin 1800 \<and> endBlock info = Fin 2699
         \<and> (2::int) * 900 \<le> 1850 \<and> (1850::int) \<le> 2 * 900 + 899"
    unfolding n by (rule exE)
  then have "getEpochInfo sampleContract (Fin 1850) None = Inr info
         \<and> number info = Fin 2 \<and> startBlock info = Fin 1800 \<and> endBlock info = Fin 2699"
    by (simp only:)
  then have 3: "\<exists>info. getEpochInfo sampleContract (Fin 1850) None = Inr info
         \<and> number info = Fin 2 \<and> startBlock info = Fin 1800 \<and> endBlock info = Fin 2699"
    by (rule exI)
  from 1 2 3 show ?thesis by (intro conjI)
qed

text \<open>
  Claim C8, as stated: a negative height is rejected with an error. The code has no such
  check: for the height \<open>-1\<close> the epoch computation returns the epoch \<open>-1\<close>, and
  \<open>getEpochInfo\<close> for the epoch number \<open>-1\<close> returns a record with the range
  \<open>[-900, -1]\<close>.
\<close>

theorem negative_height_counterexample:
  "getCurrentEpoch (Fin (- 1)) = Fin (- 1)
   \<and> getEpochInfo sampleContract (Fin 1850) (Some (Fin (- 1))) =
     Inr \<lparr>number = Fin (- 1), startBlock = Fin (- 900), endBlock = Fin (- 1),
          validatorSet = replicate 108 ''xdc1234567890abcdef1234567890abcdef12345678'',
          rewards = ''225000000000000000000'', rewardsXdc = ''225.0''\<rparr>"
proof -
  have "getCurrentEpoch (Fin (of_int (- 1))) = Fin (of_int ((- 1) div 900))"
    by (intro getCurrentEpoch_neg) simp_all
  then have "getCurrentEpoch (Fin (- 1)) = Fin (- 1)" by simp
  with sample_epoch_minus1 show ?thesis by (intro conjI)
qed

text \<open>
  Claim C8, amended. For a negative height \<open>h\<close> (above \<open>-2^53\<close>) the epoch computation
  raises no error: it returns \<open>h div 900\<close>, the floor of \<open>h / 900\<close>, a negative epoch
  number; and \<open>getEpochInfo\<close> for a negative epoch number \<open>e\<close> returns the record with
  the range \<open>[900 e, 900 e + 899]\<close>.
\<close>

theorem negative_height_no_error:
  "(h < 0 \<and> - (2 ^ 53) < h \<longrightarrow>
      getCurrentEpoch (Fin (of_int h)) = Fin (of_int (h div 900)) \<and> h div 900 < 0)
   \<and> (getCandidates c = Inr cands \<and> 0 \<le> cur \<and> cur \<le> 2 ^ 53 \<and> e < 0 \<and> - (2 ^ 53) \<le> e * 900 - 900 \<longrightarrow>
        (\<exists>info. getEpochInfo c (Fin (of_int cur)) (Some (Fin (of_int e))) = Inr info
           \<and> number info = Fin (of_int e)
           \<and> startBlock info = Fin (of_int (e * 900))
           \<and> endBlock info = Fin (of_int (e * 900 + 899))))"
proof (intro conjI impI)
  assume a: "h < 0 \<and> - (2 ^ 53) < h"
  then show "getCurrentEpoch (Fin (of_int h)) = Fin (of_int (h div 900))"
    by (intro getCurrentEpoch_neg) simp_all
  from a show "h div 900 < 0" by (simp add: div_neg_pos_less0)
next
  assume a: "getCandidates c = Inr cands \<and> 0 \<le> cur \<and> cur \<le> 2 ^ 53 \<and> e < 0
               \<and> - (2 ^ 53) \<le> e * 900 - 900"
  then have "\<bar>e\<bar> * 900 + 900 \<le> 2 ^ 53" by simp
  with a have "getEpochInfo c (Fin (of_int cur)) (Some (Fin (of_int e))) =
           Inr \<lparr>number = Fin (of_int e),
                startBlock = Fin (of_int (e * 900)),
                endBlock = Fin (of_int (e * 900 + 899)),
                validatorSet = take 108 cands,
                rewards = bigintToString
                  ((min (e * 900 + 899) cur - e * 900 + 1) * 250000000000000000),
                rewardsXdc = fixedToString
                  ((min (e * 900 + 899) cur - e * 900 + 1) * 250000000000000000) 18\<rparr>"
    by (intro getEpochInfo_Some_int) simp_all
  then show "\<exists>info. getEpochInfo c (Fin (of_int cur)) (Some (Fin (of_int e))) = Inr info
           \<and> number info = Fin (of_int e)
           \<and> startBlock info = Fin (of_int (e * 900))
           \<and> endBlock info = Fin (of_int (e * 900 + 899))"
    by simp
qed

theorem negative_height_no_error_witness:
  "getCurrentEpoch (Fin (- 1850)) = Fin (- 3)
   \<and> (\<exists>info. getEpochInfo sampleContract (Fin 1850) (Some (Fin (- 3))) = Inr info
         \<and> number info = Fin (- 3) \<and> startBlock info = Fin (- 2700)
         \<and> endBlock info = Fin (- 1801))"
proof -
  define cands where "cands = replicate 108 ''xdc1234567890abcdef1234567890abcdef12345678''
          @ [''xdcabcdefabcdef0123456789abcdefabcdef012345'']"
  have c: "getCandidates sampleContract = Inr cands"
    unfolding cands_def by (rule sample_candidates)
  note t = negative_height_no_error [of "- 1850" sampleContract cands 1850 "- 3"]
  have n: "(of_int (- 1850) :: rat) = - 1850" "(of_int (- 3) :: rat) = - 3"
    "(- 1850 :: int) div 900 = - 3" "(of_int 1850 :: rat) = 1850"
    "(of_int (- 3 * 900) :: rat) = - 2700" "(of_int (- 3 * 900 + 899) :: rat) = - 1801"
    by simp_all
  have p1: "(- 1850 :: int) < 0 \<and> - (2 ^ 53) < (- 1850 :: int)" by simp
  have p2: "getCandidates sampleContract = Inr cands \<and> (0::int) \<le> 1850 \<and> (1850::int) \<le> 2 ^ 53
              \<and> (- 3 :: int) < 0 \<and> - (2 ^ 53) \<le> (- 3 :: int) * 900 - 900"
    by (intro conjI, rule c) simp_all
  from t [THEN conjunct1, THEN mp, OF p1]
  have 1: "getCurrentEpoch (Fin (- 1850)) = Fin (- 3)" unfolding n by (rule conjunct1)
  from t [THEN conjunct2, THEN mp, OF p2]
  have 2: "\<exists>info. getEpochInfo sampleContract (Fin 1850) (Some (Fin (- 3))) = Inr info
         \<and> number info = Fin (- 3) \<and> startBlock info = Fin (- 2700)
         \<and> endBlock info = Fin (- 1801)"
    unfolding n .
  from 1 2 show ?thesis by (intro conjI)
qed

section \<open>The claims on the unit conversion\<close>

text \<open>
  Claim C9, as stated: every input to \<open>toWei\<close> that is non-numeric or negative is
  rejected with an InvalidAmount error. It fails for a negative amount: \<open>toWei\<close> hands
  the text to \<open>ethers.parseEther\<close>, whose pattern allows a leading \<open>-\<close>, and so
  \<open>toWei('-1', 'xdc')\<close> is minus one XDC in wei.
\<close>

theorem toWei_accepts_negative_counterexample:
  "toWei ''-1'' ''xdc'' = Inr (- 1000000000000000000)"
  by (simp add: toWei_def parseEther_def parseUnits_def startsWith_def isDigit_def readNat_def
      digitValue_def replicate_numeral toLowerCase_def toLowerCaseChar_def isUpperCaseChar_def)

text \<open>
  Claim C9, amended. A text that is not a decimal numeral (an optional \<open>-\<close>, digits, an
  optional point, digits, with at least one digit) is rejected for every unit: \<open>toWei\<close>
  throws the \<open>INVALID_ARGUMENT\<close> error, that of \<open>FixedNumber.fromString\<close> or, for a
  unit whose entry in \<open>UNIT_DECIMALS\<close> is no valid count of decimals, that of
  \<open>parseUnits\<close>; the code has no error of its own for amounts. A negative amount is not
  rejected: whenever an unsigned text converts to \<open>v\<close>, then \<open>0 \<le> v\<close> and the same
  text after a \<open>-\<close> converts to \<open>- v\<close>.
\<close>

theorem toWei_rejection:
  "(\<not> isNumericText value \<longrightarrow>
      toWei value unit = Inl (InvalidArgument ''invalid FixedNumber string value'')
      \<or> toWei value unit = Inl (InvalidArgument ''invalid numeric value''))
   \<and> (\<not> startsWith ''-'' value \<and> toWei value unit = Inr v \<longrightarrow>
        0 \<le> v \<and> toWei (''-'' @ value) unit = Inr (- v))"
proof (rule conjI; rule impI)
  assume "\<not> isNumericText value"
  then have p: "parseUnits value d = Inl (InvalidArgument ''invalid FixedNumber string value'')"
    for d by (rule parseUnits_not_numeric)
  show "toWei value unit = Inl (InvalidArgument ''invalid FixedNumber string value'')
      \<or> toWei value unit = Inl (InvalidArgument ''invalid numeric value'')"
  proof (cases "toLowerCase unit = ''xdc''")
    case True
    then show ?thesis by (simp add: toWei_def parseEther_def p)
  next
    case False
    show ?thesis
    proof (cases "unitDecimals (toLowerCase unit)")
      case (Inl e)
      then have "e = InvalidArgument ''invalid numeric value''"
        by (auto simp add: unitDecimals_def split: option.splits if_splits)
      with Inl False show ?thesis by (simp add: toWei_def)
    next
      case (Inr d)
      with False show ?thesis by (simp add: toWei_def p)
    qed
  qed
next
  assume a: "\<not> startsWith ''-'' value \<and> toWei value unit = Inr v"
  show "0 \<le> v \<and> toWei (''-'' @ value) unit = Inr (- v)"
  proof (cases "toLowerCase unit = ''xdc''")
    case True
    with a have "parseUnits value 18 = Inr v" by (simp add: toWei_def parseEther_def)
    with a have "0 \<le> v \<and> parseUnits (''-'' @ value) 18 = Inr (- v)"
      by (intro parseUnits_negate) simp_all
    with True show ?thesis by (simp add: toWei_def parseEther_def)
  next
    case False
    with a obtain d where d: "unitDecimals (toLowerCase unit) = Inr d"
      by (cases "unitDecimals (toLowerCase unit)") (simp_all add: toWei_def)
    with a False have "parseUnits value d = Inr v" by (simp add: toWei_def)
    with a have "0 \<le> v \<and> parseUnits (''-'' @ value) d = Inr (- v)"
      by (intro parseUnits_negate) simp_all
    with False d show ?thesis by (simp add: toWei_def)
  qed
qed

theorem toWei_rejection_witness:
  "\<not> isNumericText ''1e3''
   \<and> toWei ''1e3'' ''xdc'' = Inl (InvalidArgument ''invalid FixedNumber string value'')
   \<and> \<not> startsWith ''-'' ''1.5''
   \<and> toWei ''1.5'' ''gwei'' = Inr 1500000000
   \<and> toWei ''-1.5'' ''gwei'' = Inr (- 1500000000)"
proof -
  have n: "\<not> isNumericText ''1e3''"
    by (simp add: isNumericText_def startsWith_def isDigit_def)
  have unit: "toWei ''1e3'' ''xdc'' \<noteq> Inl (InvalidArgument ''invalid numeric value'')"
    by (simp add: toWei_def parseEther_def parseUnits_def startsWith_def isDigit_def
        toLowerCase_def toLowerCaseChar_def isUpperCaseChar_def)
  have s: "\<not> startsWith ''-'' ''1.5''" by (simp add: startsWith_def)
  have g: "toWei ''1.5'' ''gwei'' = Inr 1500000000"
    by (simp add: toWei_def unitDecimals_def UNIT_DECIMALS_def parseUnits_def startsWith_def
        isDigit_def readNat_def digitValue_def replicate_numeral
        toLowerCase_def toLowerCaseChar_def isUpperCaseChar_def)
  from toWei_rejection [of "''1e3''" "''xdc''"] n unit
  have 1: "toWei ''1e3'' ''xdc'' = Inl (InvalidArgument ''invalid FixedNumber string value'')"
    by simp
  from toWei_rejection [of "''1.5''" "''gwei''" 1500000000] s g
  have 2: "toWei ''-1.5'' ''gwei'' = Inr (- 1500000000)" by simp
  from n 1 s g 2 show ?thesis by (intro conjI)
qed

section \<open>The claims on the reward estimator\<close>




text \<open>
  Claim C1, as stated: for every stake and total stake above 0 the yearly figure is the
  exact integer \<open>floor(blocksPerYear * rewardPerBlock * stake / totalNetworkStake)\<close>, with
  no floating-point step. The code computes \<open>Number(stake) / Number(totalStake)\<close> and
  \<open>Number(yearlyRewards) * shareRatio\<close> in binary64. For the masternode stake of
  10,000,000 XDC out of the 1,000,000,000 XDC that the node operation assumes, the yearly
  figure is 39420.000000000001048576 XDC; the exact quotient is 39420 XDC.
\<close>

theorem yearly_not_exact_counterexample:
  "xdcToWei ''10000000'' = Inr 10000000000000000000000000
   \<and> xdcToWei ''1000000000'' = Inr 1000000000000000000000000000
   \<and> calculateEstimatedRewards 10000000000000000000000000 1000000000000000000000000000
      defaultBlocksPerYear =
     Inr \<lparr>daily = ''108.000000000000002872'', monthly = ''3285.000000000000087381'',
          yearly = ''39420.000000000001048576'', apy = Text ''0.39''\<rparr>
   \<and> userYearlyRewards 10000000000000000000000000 1000000000000000000000000000
        defaultBlocksPerYear = Inr 39420000000000001048576
   \<and> (15768000 * 250000000000000000 * 10000000000000000000000000)
        div 1000000000000000000000000000 = (39420000000000000000000 :: int)
   \<and> fixedToString 39420000000000000000000 18 = ''39420.0''"
proof -
  have "(15768000 * 250000000000000000 * 10000000000000000000000000)
        div 1000000000000000000000000000 = (39420000000000000000000 :: int)"
    by simp
  moreover have "fixedToString 39420000000000000000000 18 = ''39420.0''"
    by (simp add: fixedToString_def eval_text)
  ultimately show ?thesis
    using scenario_wei(2,3) masternodeStake_rewards masternodeStake_yearly by (intro conjI)
qed

text \<open>
  Claim C1, amended. For a stake and a total stake above 0 and below \<open>2^256\<close> wei and a
  \<open>blocksPerYear\<close> from 1 to \<open>2^53\<close> the estimator returns, and its yearly figure \<open>y\<close> (in
  wei) is the floor of a binary64 value within the relative error \<open>2^-50\<close> of the exact
  quotient \<open>E = blocksPerYear * rewardPerBlock * stake / totalStake\<close>:
  \<open>E (1 - 2^-50) - 1 < y \<le> E (1 + 2^-50)\<close>, about fifteen significant digits. In the
  scenario of the claim, 10,000 XDC staked out of 1,000,000,000 XDC, with the amounts
  converted to wei by \<open>xdcToWei\<close> as the node operation does, the yearly figure is 39.42
  XDC.
\<close>

theorem yearly_rounding_error:
  "(0 < s \<and> s < 2 ^ 256 \<and> 0 < t \<and> t < 2 ^ 256 \<and> 0 < n \<and> n \<le> 2 ^ 53 \<longrightarrow>
      (\<exists>y r. userYearlyRewards s t (Fin (of_int n)) = Inr y
         \<and> calculateEstimatedRewards s t (Fin (of_int n)) = Inr r
         \<and> yearly r = fixedToString y 18
         \<and> of_int (n * 250000000000000000 * s) / of_int t * (1 - 1 / 2 ^ 50) - 1
             < (of_int y :: rat)
         \<and> (of_int y :: rat)
             \<le> of_int (n * 250000000000000000 * s) / of_int t * (1 + 1 / 2 ^ 50)))
   \<and> xdcToWei ''10000'' = Inr 10000000000000000000000
   \<and> xdcToWei ''1000000000'' = Inr 1000000000000000000000000000
   \<and> calculateEstimatedRewards 10000000000000000000000 1000000000000000000000000000
        defaultBlocksPerYear =
       Inr \<lparr>daily = ''0.108'', monthly = ''3.285'', yearly = ''39.42'', apy = Text ''0.39''\<rparr>"
proof (rule conjI; (rule impI)?)
  assume a: "0 < s \<and> s < 2 ^ 256 \<and> 0 < t \<and> t < 2 ^ 256 \<and> 0 < n \<and> n \<le> 2 ^ 53"
  then have "\<exists>y. userYearlyRewards s t (Fin (of_int n)) = Inr y \<and> 0 \<le> y \<and> y < 2 ^ 511
           \<and> of_int (n * 250000000000000000 * s) / of_int t * (1 - 1 / 2 ^ 50) - 1 < (of_int y :: rat)
           \<and> (of_int y :: rat) \<le> of_int (n * 250000000000000000 * s) / of_int t * (1 + 1 / 2 ^ 50)"
    by (intro userYearly_error) simp_all
  then obtain y where y: "userYearlyRewards s t (Fin (of_int n)) = Inr y" "0 \<le> y" "y < 2 ^ 511"
    and e: "of_int (n * 250000000000000000 * s) / of_int t * (1 - 1 / 2 ^ 50) - 1 < (of_int y :: rat)"
       "(of_int y :: rat) \<le> of_int (n * 250000000000000000 * s) / of_int t * (1 + 1 / 2 ^ 50)"
    by (elim exE conjE)
  from a have t0: "t \<noteq> 0" by simp
  from y(2) have lo: "- (2 ^ 511) \<le> y" by simp
  note r = rewards_of_yearly [OF t0 y(1) lo y(3)]
  have "yearly \<lparr>daily = fixedToString (bigintDiv y 365) 18,
                monthly = fixedToString (bigintDiv y 12) 18,
                yearly = fixedToString y 18,
                apy = toFixed2 (js_mul (js_div (Number y) (Number s)) (Fin 100))\<rparr>
        = fixedToString y 18" by simp
  with y(1) r e show "\<exists>y r. userYearlyRewards s t (Fin (of_int n)) = Inr y
         \<and> calculateEstimatedRewards s t (Fin (of_int n)) = Inr r
         \<and> yearly r = fixedToString y 18
         \<and> of_int (n * 250000000000000000 * s) / of_int t * (1 - 1 / 2 ^ 50) - 1
             < (of_int y :: rat)
         \<and> (of_int y :: rat)
             \<le> of_int (n * 250000000000000000 * s) / of_int t * (1 + 1 / 2 ^ 50)"
    by (intro exI [of _ y] exI conjI)
next
  show "xdcToWei ''10000'' = Inr 10000000000000000000000
   \<and> xdcToWei ''1000000000'' = Inr 1000000000000000000000000000
   \<and> calculateEstimatedRewards 10000000000000000000000 1000000000000000000000000000
        defaultBlocksPerYear =
       Inr \<lparr>daily = ''0.108'', monthly = ''3.285'', yearly = ''39.42'', apy = Text ''0.39''\<rparr>"
    using scenario_wei(1,3) scenarioB_rewards by (intro conjI)
qed

theorem yearly_rounding_error_witness:
  "(0::int) < 10000000000000000000000000 \<and> (10000000000000000000000000::int) < 2 ^ 256
   \<and> (0::int) < 1000000000000000000000000000 \<and> (1000000000000000000000000000::int) < 2 ^ 256
   \<and> (0::int) < 15768000 \<and> (15768000::int) \<le> 2 ^ 53
   \<and> userYearlyRewards 10000000000000000000000000 1000000000000000000000000000
        (Fin (of_int 15768000)) = Inr 39420000000000001048576
   \<and> (39420000000000000000000 :: rat) * (1 - 1 / 2 ^ 50) - 1 < 39420000000000001048576
   \<and> (39420000000000001048576 :: rat) \<le> 39420000000000000000000 * (1 + 1 / 2 ^ 50)"
proof -
  note t = yearly_rounding_error [of 10000000000000000000000000 1000000000000000000000000000
      15768000]
  have p: "(0::int) < 10000000000000000000000000 \<and> (10000000000000000000000000::int) < 2 ^ 256
   \<and> (0::int) < 1000000000000000000000000000 \<and> (1000000000000000000000000000::int) < 2 ^ 256
   \<and> (0::int) < 15768000 \<and> (15768000::int) \<le> 2 ^ 53"
    by simp
  have y: "userYearlyRewards 10000000000000000000000000 1000000000000000000000000000
        (Fin (of_int 15768000)) = Inr 39420000000000001048576"
    using masternodeStake_yearly by (simp add: defaultBlocksPerYear_def)
  from t [THEN conjunct1, THEN mp, OF p] obtain y' r where
    "userYearlyRewards 10000000000000000000000000 1000000000000000000000000000
        (Fin (of_int 15768000)) = Inr y'"
    and e: "of_int (15768000 * 250000000000000000 * 10000000000000000000000000)
          / of_int 1000000000000000000000000000 * (1 - 1 / 2 ^ 50) - 1 < (of_int y' :: rat)"
       "(of_int y' :: rat) \<le> of_int (15768000 * 250000000000000000 * 10000000000000000000000000)
          / of_int 1000000000000000000000000000 * (1 + 1 / 2 ^ 50)"
    by (elim exE conjE)
  with y have "y' = 39420000000000001048576" by simp
  with e have "(39420000000000000000000 :: rat) * (1 - 1 / 2 ^ 50) - 1 < 39420000000000001048576"
    "(39420000000000001048576 :: rat) \<le> 39420000000000000000000 * (1 + 1 / 2 ^ 50)"
    by simp_all
  with p y show ?thesis by (intro conjI) simp_all
qed

end
